theory Spec2Isabelle
  imports Complex_Main
begin

section \<open>Data model of the CIPV engine\<close>

text \<open>
  The engine computes with C++ \<open>float\<close> and \<open>double\<close>. The embedding reads every
  floating-point value as a real number: rounding, infinities and NaN are outside the model,
  and a cast between \<open>float\<close> and \<open>double\<close> is the identity. Where the source
  reads memory it must not read (an index outside a container, a variable never written, an
  iterator whose entry has been erased) the model returns an error value instead of a result.
\<close>

datatype error = IndexOutOfRange | UninitializedRead | InvalidatedIterator

type_synonym Point2Df = "real \<times> real"

type_synonym Vector3d = "real \<times> real \<times> real"

text \<open>A 3x3 matrix, as its three rows.\<close>

type_synonym Matrix3d = "Vector3d \<times> Vector3d \<times> Vector3d"

type_synonym Vector4f = "real \<times> real \<times> real \<times> real"

text \<open>A 4x4 motion matrix, as its four rows.\<close>

type_synonym Matrix4f = "Vector4f \<times> Vector4f \<times> Vector4f \<times> Vector4f"

record LineSegment2Df =
  start_point :: Point2Df
  end_point :: Point2Df

record LaneLineSimple =
  line_point :: "Point2Df list"

record EgoLane =
  left_line :: LaneLineSimple
  right_line :: LaneLineSimple

text \<open>
  \<open>base::LaneLinePositionType\<close> is declared outside this file; the engine only tells
  ego-left and ego-right from everything else.
\<close>

datatype LaneLinePositionType = EGO_LEFT | EGO_RIGHT | OTHER_POSITION

record LaneLine =
  pos_type :: LaneLinePositionType
  curve_image_point_set :: "Point2Df list"
  curve_car_coord_point_set :: "Point2Df list"

text \<open>
  \<open>base::RectF\<close>, built by the source from the object's image bounding box:
  corner \<open>(x, y)\<close>, \<open>width\<close> and \<open>height\<close>.
\<close>

record RectF =
  rect_x :: real
  rect_y :: real
  rect_width :: real
  rect_height :: real

text \<open>The fields of \<open>base::Object\<close> that the engine reads, and the flag it writes.\<close>

record Object =
  track_id :: int
  object_size :: Vector3d
  center :: Vector3d
  local_center :: Vector3d
  alpha :: real
  box :: RectF
  b_cipv :: bool

record CipvOptions =
  yaw_rate :: real
  velocity :: real

text \<open>
  A \<open>boost::circular_buffer\<close> of trajectory points: its capacity and its contents,
  oldest first.
\<close>

record CircularBuffer =
  capacity :: nat
  items :: "Point2Df list"

text \<open>
  The constants of the header \<open>cipv_camera.h\<close>, which is not part of the sources at
  hand: every function that uses one takes the record as its first argument.
\<close>

record CipvConsts =
  AVERAGE_FRATE_RATE :: real
  B_FLT_EPSILON :: real
  MIN_LANE_LINE_LENGTH_FOR_CIPV_DETERMINATION :: nat
  EGO_CAR_HALF_VIRTUAL_LANE :: real
  MAX_FLOAT :: real
  MAX_DIST_OBJECT_TO_LANE_METER :: real
  MAX_VEHICLE_WIDTH_METER :: real
  EPSILON :: real
  DROPS_HISTORY_SIZE :: nat
  MAX_ALLOWED_SKIP_OBJECT :: nat

text \<open>
  The engine's state: the members of class \<open>Cipv\<close>, and \<open>old_cipv_index\<close>, the
  function-local static of \<open>DetermineCipv\<close>. The two \<open>std::map\<close>s are association
  lists with ascending keys, the order in which the source iterates them.
\<close>

record Cipv =
  b_image_based_cipv :: bool
  debug_level :: int
  time_unit :: real
  homography_im2car :: Matrix3d
  homography_car2im :: Matrix3d
  object_trackjectories :: "(int \<times> CircularBuffer) list"
  object_id_skip_count :: "(int \<times> nat) list"
  old_cipv_index :: int

section \<open>Linear algebra used by the engine\<close>

definition mat_vec :: "Matrix3d \<Rightarrow> Vector3d \<Rightarrow> Vector3d" where
  "mat_vec M v =
     (case M of ((a, b, c), (d, e, f), (g, h, i)) \<Rightarrow>
      case v of (x, y, z) \<Rightarrow>
        (a * x + b * y + c * z, d * x + e * y + f * z, g * x + h * y + i * z))"

definition determinant :: "Matrix3d \<Rightarrow> real" where
  "determinant M =
     (case M of ((a, b, c), (d, e, f), (g, h, i)) \<Rightarrow>
        a * (e * i - f * h) - b * (d * i - f * g) + c * (d * h - e * g))"

text \<open>
  \<open>Eigen::Matrix3d::inverse()\<close>: the cofactor formula, every entry of the adjugate
  divided by the determinant. Eigen does not test the determinant; on a singular matrix the
  division by zero gives infinities or NaN there, and \<open>0\<close> here.
\<close>

definition inverse3 :: "Matrix3d \<Rightarrow> Matrix3d" where
  "inverse3 M =
     (case M of ((a, b, c), (d, e, f), (g, h, i)) \<Rightarrow>
        let dt = determinant M in
        (((e * i - f * h) / dt, (c * h - b * i) / dt, (b * f - c * e) / dt),
         ((f * g - d * i) / dt, (a * i - c * g) / dt, (c * d - a * f) / dt),
         ((d * h - e * g) / dt, (b * g - a * h) / dt, (a * e - b * d) / dt)))"

definition identity3 :: Matrix3d where
  "identity3 = ((1, 0, 0), (0, 1, 0), (0, 0, 1))"

definition zero3 :: Matrix3d where
  "zero3 = ((0, 0, 0), (0, 0, 0), (0, 0, 0))"

text \<open>\<open>std::numeric_limits<double>::min()\<close>, the smallest positive normal double.\<close>

definition DBL_MIN :: real where
  "DBL_MIN = 1 / 2 ^ 1022"

text \<open>The C library's \<open>atan2(y, x)\<close>.\<close>

definition atan2 :: "real \<Rightarrow> real \<Rightarrow> real" where
  "atan2 y x =
     (if 0 < x then arctan (y / x)
      else if x < 0 \<and> 0 \<le> y then arctan (y / x) + pi
      else if x < 0 then arctan (y / x) - pi
      else if 0 < y then pi / 2
      else if y < 0 then - (pi / 2)
      else 0)"

section \<open>Construction and initialisation\<close>

text \<open>
  The engine as its constructor leaves it: empty maps, and the static
  \<open>old_cipv_index = -2\<close>. \<open>Init\<close> overwrites the other members before any use.
\<close>

definition Cipv_new :: Cipv where
  "Cipv_new =
     \<lparr>b_image_based_cipv = False, debug_level = 0, time_unit = 0,
      homography_im2car = zero3, homography_car2im = zero3,
      object_trackjectories = [], object_id_skip_count = [], old_cipv_index = - 2\<rparr>"

definition Init :: "CipvConsts \<Rightarrow> Cipv \<Rightarrow> Matrix3d \<Rightarrow> bool \<times> Cipv" where
  "Init K st homography =
     (True,
      st\<lparr>b_image_based_cipv := False, debug_level := 0,
         time_unit := AVERAGE_FRATE_RATE K,
         homography_im2car := homography,
         homography_car2im := inverse3 homography\<rparr>)"

section \<open>CoordinateTransform\<close>

definition image2ground :: "Cipv \<Rightarrow> real \<Rightarrow> real \<Rightarrow> Point2Df option" where
  "image2ground st image_x image_y =
     (case mat_vec (homography_im2car st) (image_x, image_y, 1) of (g0, g1, g2) \<Rightarrow>
        if \<bar>g2\<bar> > DBL_MIN then Some (g0 / g2, g1 / g2) else None)"


section \<open>EgoLaneBuilder\<close>

text \<open>
  The inner loop of \<open>GetEgoLane\<close>: for every index \<open>j\<close> of the image point set it
  appends the image point to the image lane and the car-coordinate point of the same index to
  the ground lane. The source does not compare the two lengths: a shorter car-coordinate set
  is read out of range.
\<close>

fun push_lane_points ::
  "Point2Df list \<Rightarrow> Point2Df list \<Rightarrow> LaneLineSimple \<Rightarrow> LaneLineSimple \<Rightarrow>
   error + (LaneLineSimple \<times> LaneLineSimple)" where
  "push_lane_points [] cs il gl = Inr (il, gl)"
| "push_lane_points (ip # ips) [] il gl = Inl IndexOutOfRange"
| "push_lane_points (ip # ips) (c # cs) il gl =
     push_lane_points ips cs
       (il\<lparr>line_point := line_point il @ [ip]\<rparr>)
       (gl\<lparr>line_point := line_point gl @ [c]\<rparr>)"

fun GetEgoLane ::
  "CipvConsts \<Rightarrow> LaneLine list \<Rightarrow> EgoLane \<Rightarrow> EgoLane \<Rightarrow> bool \<Rightarrow> bool \<Rightarrow>
   error + (EgoLane \<times> EgoLane \<times> bool \<times> bool)" where
  "GetEgoLane K [] egolane_image egolane_ground b_left_valid b_right_valid =
     Inr (egolane_image, egolane_ground, b_left_valid, b_right_valid)"
| "GetEgoLane K (l # ls) egolane_image egolane_ground b_left_valid b_right_valid =
     (if pos_type l = EGO_LEFT then
        (if length (curve_image_point_set l) < MIN_LANE_LINE_LENGTH_FOR_CIPV_DETERMINATION K
         then GetEgoLane K ls egolane_image egolane_ground False b_right_valid
         else
           (case push_lane_points (curve_image_point_set l) (curve_car_coord_point_set l)
                   (left_line egolane_image) (left_line egolane_ground) of
              Inl e \<Rightarrow> Inl e
            | Inr (il, gl) \<Rightarrow>
                GetEgoLane K ls (egolane_image\<lparr>left_line := il\<rparr>)
                  (egolane_ground\<lparr>left_line := gl\<rparr>) True b_right_valid))
      else if pos_type l = EGO_RIGHT then
        (if length (curve_image_point_set l) < MIN_LANE_LINE_LENGTH_FOR_CIPV_DETERMINATION K
         then GetEgoLane K ls egolane_image egolane_ground b_left_valid False
         else
           (case push_lane_points (curve_image_point_set l) (curve_car_coord_point_set l)
                   (right_line egolane_image) (right_line egolane_ground) of
              Inl e \<Rightarrow> Inl e
            | Inr (il, gl) \<Rightarrow>
                GetEgoLane K ls (egolane_image\<lparr>right_line := il\<rparr>)
                  (egolane_ground\<lparr>right_line := gl\<rparr>) b_left_valid True))
      else GetEgoLane K ls egolane_image egolane_ground b_left_valid b_right_valid)"

text \<open>
  \<open>MakeVirtualLane\<close> clears the output line and, in ground mode, fills it with the
  reference points shifted by \<open>offset_distance\<close> along y. The result is the new value of
  \<open>*virtual_lane_line\<close>.
\<close>

definition MakeVirtualLane ::
  "Cipv \<Rightarrow> LaneLineSimple \<Rightarrow> real \<Rightarrow> real \<Rightarrow> LaneLineSimple" where
  "MakeVirtualLane st ref_lane_line yaw offset_distance =
     (if \<not> b_image_based_cipv st
      then \<lparr>line_point = map (\<lambda>p. (fst p, snd p + offset_distance)) (line_point ref_lane_line)\<rparr>
      else \<lparr>line_point = []\<rparr>)"

text \<open>\<open>VehicleDynamics\<close> writes \<open>*x\<close> and \<open>*y\<close>; the tick and the yaw rate are not used.\<close>

definition VehicleDynamics :: "nat \<Rightarrow> real \<Rightarrow> real \<Rightarrow> real \<Rightarrow> real \<times> real" where
  "VehicleDynamics tick yaw vel t_unit = (t_unit * vel, 0)"

text \<open>The loop \<open>for (i = 0; i < 120; i += 5)\<close> of \<open>MakeVirtualEgoLaneFromYawRate\<close>.\<close>

function virtual_ego_lane_loop ::
  "Cipv \<Rightarrow> real \<Rightarrow> real \<Rightarrow> real \<Rightarrow> nat \<Rightarrow> Point2Df list \<Rightarrow> Point2Df list \<Rightarrow>
   Point2Df list \<times> Point2Df list" where
  "virtual_ego_lane_loop st yaw vel offset_distance i left right =
     (if i < 120 then
        (case VehicleDynamics i yaw vel (time_unit st) of (x, y) \<Rightarrow>
           virtual_ego_lane_loop st yaw vel offset_distance (i + 5)
             (left @ [(x, y + offset_distance)]) (right @ [(x, y - offset_distance)]))
      else (left, right))"
  by pat_completeness auto
termination
  by (relation "measure (\<lambda>(st, yaw, vel, offset_distance, i, left, right). 120 - i)") auto

declare virtual_ego_lane_loop.simps [simp del]

definition MakeVirtualEgoLaneFromYawRate ::
  "Cipv \<Rightarrow> real \<Rightarrow> real \<Rightarrow> real \<Rightarrow> LaneLineSimple \<times> LaneLineSimple" where
  "MakeVirtualEgoLaneFromYawRate st yaw vel offset_distance =
     (if \<not> b_image_based_cipv st
      then (case virtual_ego_lane_loop st yaw vel offset_distance 0 [] [] of
              (left, right) \<Rightarrow> (\<lparr>line_point = left\<rparr>, \<lparr>line_point = right\<rparr>))
      else (\<lparr>line_point = []\<rparr>, \<lparr>line_point = []\<rparr>))"

text \<open>
  \<open>ElongateEgoLane\<close> returns the two ego lanes as it leaves them. With one valid side it
  reads point 0 of that side's ground line, which is out of range when the line is empty.
\<close>

definition ElongateEgoLane ::
  "CipvConsts \<Rightarrow> Cipv \<Rightarrow> LaneLine list \<Rightarrow> bool \<Rightarrow> bool \<Rightarrow> real \<Rightarrow> real \<Rightarrow>
   EgoLane \<Rightarrow> EgoLane \<Rightarrow> error + (EgoLane \<times> EgoLane)" where
  "ElongateEgoLane K st lane_objects b_left_valid b_right_valid yaw vel
       egolane_image egolane_ground =
     (if b_left_valid \<and> b_right_valid then Inr (egolane_image, egolane_ground)
      else if \<not> b_left_valid \<and> b_right_valid then
        (case line_point (right_line egolane_ground) of
           [] \<Rightarrow> Inl IndexOutOfRange
         | p0 # _ \<Rightarrow>
             let offset_distance = - (\<bar>snd p0\<bar> + EGO_CAR_HALF_VIRTUAL_LANE K) in
             Inr (egolane_image,
                  egolane_ground\<lparr>left_line :=
                    MakeVirtualLane st (right_line egolane_ground) yaw offset_distance\<rparr>))
      else if b_left_valid \<and> \<not> b_right_valid then
        (case line_point (left_line egolane_ground) of
           [] \<Rightarrow> Inl IndexOutOfRange
         | p0 # _ \<Rightarrow>
             let offset_distance = \<bar>snd p0\<bar> + EGO_CAR_HALF_VIRTUAL_LANE K in
             Inr (egolane_image,
                  egolane_ground\<lparr>right_line :=
                    MakeVirtualLane st (left_line egolane_ground) yaw offset_distance\<rparr>))
      else
        (case MakeVirtualEgoLaneFromYawRate st yaw vel (EGO_CAR_HALF_VIRTUAL_LANE K) of
           (left, right) \<Rightarrow>
             Inr (egolane_image, egolane_ground\<lparr>left_line := left, right_line := right\<rparr>)))"

section \<open>ObjectGeometry\<close>

text \<open>
  \<open>FindClosestEdgeOfObjectImage\<close> is called from nowhere in the engine (the image-based
  containment test returns \<open>true\<close> without looking at an edge) and is not modelled.
\<close>

text \<open>
  The loop over the four corners of \<open>FindClosestEdgeOfObjectGround\<close>, carrying
  \<open>(closest_x, second_closest_x, closest_index, second_closest_index)\<close>; \<open>i\<close> is the
  index of the first corner still to visit.
\<close>

fun closest_corner_loop ::
  "Point2Df list \<Rightarrow> int \<Rightarrow> real \<times> real \<times> int \<times> int \<Rightarrow> real \<times> real \<times> int \<times> int" where
  "closest_corner_loop [] i acc = acc"
| "closest_corner_loop (p # ps) i (closest_x, second_closest_x, closest_index, second_closest_index) =
     (if fst p \<le> closest_x
      then closest_corner_loop ps (i + 1) (fst p, closest_x, i, closest_index)
      else if fst p \<le> second_closest_x
      then closest_corner_loop ps (i + 1) (closest_x, fst p, closest_index, i)
      else closest_corner_loop ps (i + 1)
             (closest_x, second_closest_x, closest_index, second_closest_index))"

text \<open>
  The four corners of the footprint, \<open>p[0] .. p[3]\<close>, rotated by \<open>theta\<close> about the
  footprint centre.
\<close>

definition footprint_corners ::
  "real \<Rightarrow> real \<Rightarrow> real \<Rightarrow> real \<Rightarrow> real \<Rightarrow> Point2Df list" where
  "footprint_corners size_x size_y theta center_x center_y =
     (let x1 = size_x * (1 / 2); x2 = - x1; y1 = size_y * (1 / 2); y2 = - y1;
          cos_theta = cos theta; sin_theta = sin theta
      in [(x2 * cos_theta + y1 * sin_theta + center_x, y1 * cos_theta - x2 * sin_theta + center_y),
          (x2 * cos_theta + y2 * sin_theta + center_x, y2 * cos_theta - x2 * sin_theta + center_y),
          (x1 * cos_theta + y1 * sin_theta + center_x, y1 * cos_theta - x1 * sin_theta + center_y),
          (x1 * cos_theta + y2 * sin_theta + center_x, y2 * cos_theta - x1 * sin_theta + center_y)])"

text \<open>
  From the corner loop to the return. The result pairs the returned flag with the value
  written to the out-parameter \<open>*closted_object_edge\<close>: \<open>None\<close> when the function
  returns without writing it. An index still \<open>-1\<close> after the loop is used to read
  \<open>p[-1]\<close>. In \<open>float\<close> the initial \<open>MAX_FLOAT - 1.0f\<close> rounds to \<open>MAX_FLOAT\<close>;
  the value is overwritten by the first corner that is at most \<open>MAX_FLOAT\<close>.
\<close>

definition closest_edge ::
  "CipvConsts \<Rightarrow> Point2Df list \<Rightarrow> error + (bool \<times> LineSegment2Df option)" where
  "closest_edge K p =
     (case closest_corner_loop p 0 (MAX_FLOAT K, MAX_FLOAT K - 1, - 1, - 1) of
        (closest_x, second_closest_x, closest_index, second_closest_index) \<Rightarrow>
          if closest_index < 0 \<or> second_closest_index < 0 then Inl IndexOutOfRange
          else
            let pc = p ! nat closest_index; ps = p ! nat second_closest_index;
                edge = (if snd pc \<ge> snd ps
                        then \<lparr>start_point = pc, end_point = ps\<rparr>
                        else \<lparr>start_point = ps, end_point = pc\<rparr>)
            in if fst pc < 0 then Inr (False, Some edge) else Inr (True, Some edge))"

text \<open>
  \<open>FindClosestEdgeOfObjectGround\<close>. The source ignores the result of
  \<open>image2ground\<close>: when that fails, \<open>center_x\<close> and \<open>center_y\<close> are read without
  ever having been written.
\<close>

definition object_theta :: "Object \<Rightarrow> real" where
  "object_theta object =
     (case local_center object of (pos0, pos1, pos2) \<Rightarrow>
        let theta_ray = atan2 pos0 pos2; theta = alpha object + theta_ray
        in if theta > pi / 2 then theta - pi / 2 else theta)"

definition FindClosestEdgeOfObjectGround ::
  "CipvConsts \<Rightarrow> Cipv \<Rightarrow> Object \<Rightarrow> EgoLane \<Rightarrow> error + (bool \<times> LineSegment2Df option)" where
  "FindClosestEdgeOfObjectGround K st object egolane_ground =
     (case object_size object of (size_x, size_y, size_z) \<Rightarrow>
        if size_x < 1 / 100 \<and> size_y < 1 / 100 \<and> size_z < 1 / 100 then Inr (False, None)
        else
          let rect = box object;
              footprint_x = rect_x rect + rect_width rect * (1 / 2);
              footprint_y = rect_y rect + rect_height rect
          in (case image2ground st footprint_x footprint_y of
                None \<Rightarrow> Inl UninitializedRead
              | Some (center_x, center_y) \<Rightarrow>
                  closest_edge K
                    (footprint_corners size_x size_y (object_theta object) center_x center_y)))"

section \<open>LaneContainment\<close>

text \<open>
  Modelled from the spec: \<open>common::math::LineSegment2d\<close> (its \<open>length_sqr\<close> and
  \<open>DistanceTo\<close>) is defined in \<open>modules/common/math/line_segment2d.h\<close>, which is not
  among the sources. The spec: the perpendicular/clamped distance from a point to a segment.
\<close>

definition length_sqr :: "Point2Df \<Rightarrow> Point2Df \<Rightarrow> real" where
  "length_sqr a b = (fst b - fst a) * (fst b - fst a) + (snd b - snd a) * (snd b - snd a)"

definition DistanceTo :: "Point2Df \<Rightarrow> Point2Df \<Rightarrow> Point2Df \<Rightarrow> real" where
  "DistanceTo a b p =
     (let t = ((fst p - fst a) * (fst b - fst a) + (snd p - snd a) * (snd b - snd a))
                / length_sqr a b;
          tc = (if t < 0 then 0 else if t > 1 then 1 else t);
          qx = fst a + tc * (fst b - fst a);
          qy = snd a + tc * (snd b - snd a)
      in sqrt ((fst p - qx) * (fst p - qx) + (snd p - qy) * (snd p - qy)))"

text \<open>\<open>DistanceFromPointToLineSegment\<close>: \<open>None\<close> is the \<open>false\<close> return.\<close>

definition DistanceFromPointToLineSegment ::
  "CipvConsts \<Rightarrow> Point2Df \<Rightarrow> Point2Df \<Rightarrow> Point2Df \<Rightarrow> real option" where
  "DistanceFromPointToLineSegment K point line_seg_start_point line_seg_end_point =
     (if length_sqr line_seg_start_point line_seg_end_point \<le> B_FLT_EPSILON K then None
      else Some (DistanceTo line_seg_start_point line_seg_end_point point))"

definition AreDistancesSane :: "CipvConsts \<Rightarrow> real \<Rightarrow> real \<Rightarrow> real \<Rightarrow> real \<Rightarrow> bool" where
  "AreDistancesSane K distance_start_point_to_right_lane distance_start_point_to_left_lane
       distance_end_point_to_right_lane distance_end_point_to_left_lane =
     (if distance_start_point_to_right_lane > MAX_DIST_OBJECT_TO_LANE_METER K then False
      else if distance_start_point_to_left_lane > MAX_DIST_OBJECT_TO_LANE_METER K then False
      else if distance_end_point_to_right_lane > MAX_DIST_OBJECT_TO_LANE_METER K then False
      else if distance_end_point_to_left_lane > MAX_DIST_OBJECT_TO_LANE_METER K then False
      else if \<bar>distance_start_point_to_right_lane - distance_end_point_to_right_lane\<bar>
                > MAX_VEHICLE_WIDTH_METER K then False
      else if \<bar>distance_end_point_to_left_lane - distance_start_point_to_left_lane\<bar>
                > MAX_VEHICLE_WIDTH_METER K then False
      else True)"

definition IsPointLeftOfLine :: "Point2Df \<Rightarrow> Point2Df \<Rightarrow> Point2Df \<Rightarrow> bool" where
  "IsPointLeftOfLine point line_seg_start_point line_seg_end_point =
     (let cross_product =
            (fst line_seg_end_point - fst line_seg_start_point)
              * (snd point - snd line_seg_start_point)
          - (snd line_seg_end_point - snd line_seg_start_point)
              * (fst point - fst line_seg_start_point)
      in cross_product > 0)"

definition IsObjectInTheLaneImage :: "Object \<Rightarrow> EgoLane \<Rightarrow> bool" where
  "IsObjectInTheLaneImage object egolane_image = True"

text \<open>
  The search loops of \<open>IsObjectInTheLaneGround\<close>, \<open>for (i = 0; i + 1 < size; ++i)\<close>,
  over the segments of one lane line: \<open>i\<close> is the index of the first point of the list
  still to visit, the pair is \<open>(closest_index, shortest_distance)\<close>.
\<close>

fun closest_segment_loop ::
  "CipvConsts \<Rightarrow> Point2Df \<Rightarrow> Point2Df list \<Rightarrow> int \<Rightarrow> int \<times> real \<Rightarrow> int \<times> real" where
  "closest_segment_loop K pt (a # b # rest) i (closest_index, shortest_distance) =
     (case DistanceFromPointToLineSegment K pt a b of
        None \<Rightarrow> closest_segment_loop K pt (b # rest) (i + 1) (closest_index, shortest_distance)
      | Some distance \<Rightarrow>
          if distance < shortest_distance
          then closest_segment_loop K pt (b # rest) (i + 1) (i, distance)
          else closest_segment_loop K pt (b # rest) (i + 1) (closest_index, shortest_distance))"
| "closest_segment_loop K pt ps i acc = acc"

text \<open>
  \<open>IsObjectInTheLaneGround\<close>. The four \<open>shortest_distance_..._lane\<close> locals are
  initialised to \<open>0.0f\<close> and never assigned afterwards, so the gate is called on four
  zeros.
\<close>

definition IsObjectInTheLaneGround ::
  "CipvConsts \<Rightarrow> Cipv \<Rightarrow> Object \<Rightarrow> EgoLane \<Rightarrow> error + bool" where
  "IsObjectInTheLaneGround K st object egolane_ground =
     (let shortest_distance_start_point_to_right_lane = 0;
          shortest_distance_start_point_to_left_lane = 0;
          shortest_distance_end_point_to_right_lane = 0;
          shortest_distance_end_point_to_left_lane = 0
      in
      case FindClosestEdgeOfObjectGround K st object egolane_ground of
        Inl e \<Rightarrow> Inl e
      | Inr (b_valid_object, written) \<Rightarrow>
          (case (b_valid_object, written) of
             (True, Some closted_object_edge) \<Rightarrow>
               let lpts = line_point (left_line egolane_ground);
                   rpts = line_point (right_line egolane_ground)
               in
               if length lpts \<le> 1 then Inr False
               else
                 let li = fst (closest_segment_loop K (end_point closted_object_edge) lpts 0
                                 (- 1, MAX_FLOAT K));
                     b_left_lane_clear =
                       (li \<ge> 0 \<and>
                        \<not> IsPointLeftOfLine (end_point closted_object_edge)
                            (lpts ! nat li) (lpts ! nat (li + 1)))
                 in
                 if length rpts \<le> 1 then Inr False
                 else
                   let ri = fst (closest_segment_loop K (start_point closted_object_edge) rpts 0
                                   (- 1, MAX_FLOAT K));
                       b_right_lane_clear =
                         (ri \<ge> 0 \<and>
                          IsPointLeftOfLine (start_point closted_object_edge)
                            (rpts ! nat ri) (rpts ! nat (ri + 1)))
                   in
                   if AreDistancesSane K shortest_distance_start_point_to_right_lane
                        shortest_distance_start_point_to_left_lane
                        shortest_distance_end_point_to_right_lane
                        shortest_distance_end_point_to_left_lane
                   then Inr (b_left_lane_clear \<and> b_right_lane_clear)
                   else Inr False
           | _ \<Rightarrow> Inr False))"

definition IsObjectInTheLane ::
  "CipvConsts \<Rightarrow> Cipv \<Rightarrow> Object \<Rightarrow> EgoLane \<Rightarrow> EgoLane \<Rightarrow> error + bool" where
  "IsObjectInTheLane K st object egolane_image egolane_ground =
     (if b_image_based_cipv st then Inr (IsObjectInTheLaneImage object egolane_image)
      else IsObjectInTheLaneGround K st object egolane_ground)"

section \<open>CipvSelector\<close>

text \<open>
  The selection loop of \<open>DetermineCipv\<close> over the objects from index \<open>i\<close> on;
  \<open>objects\<close> is the whole list, read at \<open>cipv_index\<close>. The track id of the selection
  is only logged and is left out.
\<close>

fun select_cipv_loop ::
  "CipvConsts \<Rightarrow> Cipv \<Rightarrow> EgoLane \<Rightarrow> EgoLane \<Rightarrow> Object list \<Rightarrow> Object list \<Rightarrow> int \<Rightarrow> int \<Rightarrow>
   error + int" where
  "select_cipv_loop K st egolane_image egolane_ground objects [] i cipv_index = Inr cipv_index"
| "select_cipv_loop K st egolane_image egolane_ground objects (obj # rest) i cipv_index =
     (case IsObjectInTheLane K st obj egolane_image egolane_ground of
        Inl e \<Rightarrow> Inl e
      | Inr in_lane \<Rightarrow>
          if in_lane \<and>
             (cipv_index < 0 \<or> fst (center obj) < fst (center (objects ! nat cipv_index)))
          then select_cipv_loop K st egolane_image egolane_ground objects rest (i + 1) i
          else select_cipv_loop K st egolane_image egolane_ground objects rest (i + 1) cipv_index)"

text \<open>
  \<open>DetermineCipv\<close> returns its result, the engine with the static
  \<open>old_cipv_index\<close> updated, and the object list with the flags as the call leaves them.
  Every entry of the list is taken to point to an object of its own. The source writes
  \<open>(*objects)[old_cipv_index]\<close> without comparing the old index with the size of the
  current list.
\<close>

definition set_b_cipv :: "Object list \<Rightarrow> int \<Rightarrow> bool \<Rightarrow> Object list" where
  "set_b_cipv objects i v = objects[nat i := (objects ! nat i)\<lparr>b_cipv := v\<rparr>]"

definition DetermineCipv ::
  "CipvConsts \<Rightarrow> Cipv \<Rightarrow> LaneLine list \<Rightarrow> CipvOptions \<Rightarrow> Object list \<Rightarrow>
   error + (bool \<times> Cipv \<times> Object list)" where
  "DetermineCipv K st lane_objects options objects =
     (let empty_lane = \<lparr>left_line = \<lparr>line_point = []\<rparr>, right_line = \<lparr>line_point = []\<rparr>\<rparr> in
      case GetEgoLane K lane_objects empty_lane empty_lane False False of
        Inl e \<Rightarrow> Inl e
      | Inr (egolane_image0, egolane_ground0, b_left_valid, b_right_valid) \<Rightarrow>
      (case ElongateEgoLane K st lane_objects b_left_valid b_right_valid
              (yaw_rate options) (velocity options) egolane_image0 egolane_ground0 of
        Inl e \<Rightarrow> Inl e
      | Inr (egolane_image, egolane_ground) \<Rightarrow>
      (case select_cipv_loop K st egolane_image egolane_ground objects objects 0 (- 1) of
        Inl e \<Rightarrow> Inl e
      | Inr cipv_index \<Rightarrow>
          if cipv_index \<ge> 0 then
            (if old_cipv_index st \<ge> 0 \<and> old_cipv_index st \<noteq> cipv_index then
               (if old_cipv_index st \<ge> int (length objects) then Inl IndexOutOfRange
                else Inr (True, st\<lparr>old_cipv_index := cipv_index\<rparr>,
                          set_b_cipv (set_b_cipv objects (old_cipv_index st) False)
                            cipv_index True))
             else Inr (True, st\<lparr>old_cipv_index := cipv_index\<rparr>,
                       set_b_cipv objects cipv_index True))
          else Inr (True, st\<lparr>old_cipv_index := cipv_index\<rparr>, objects))))"

section \<open>TrajectoryTracker\<close>

definition TranformPoint :: "CipvConsts \<Rightarrow> Vector4f \<Rightarrow> Matrix4f \<Rightarrow> Vector3d option" where
  "TranformPoint K inp motion_matrix =
     (case motion_matrix of (r0, r1, r2, r3) \<Rightarrow>
        let dot = (\<lambda>r. case r of (a, b, c, d) \<Rightarrow> case inp of (x, y, z, w) \<Rightarrow>
                          a * x + b * y + c * z + d * w);
            t3 = dot r3
        in if \<bar>t3\<bar> < EPSILON K then None
           else Some (dot r0 / t3, dot r1 / t3, dot r2 / t3))"

text \<open>
  The three operations on a \<open>std::map\<close> with \<open>int\<close> keys: assignment through
  \<open>m[k] = v\<close>, \<open>erase\<close>, and \<open>operator[]\<close>, which returns the value under the key
  after inserting a default-constructed one when the key is absent.
\<close>

fun map_set :: "int \<Rightarrow> 'v \<Rightarrow> (int \<times> 'v) list \<Rightarrow> (int \<times> 'v) list" where
  "map_set k v [] = [(k, v)]"
| "map_set k v ((k', v') # m) =
     (if k < k' then (k, v) # (k', v') # m
      else if k = k' then (k, v) # m
      else (k', v') # map_set k v m)"

definition map_erase :: "int \<Rightarrow> (int \<times> 'v) list \<Rightarrow> (int \<times> 'v) list" where
  "map_erase k m = filter (\<lambda>kv. fst kv \<noteq> k) m"

definition map_index :: "'v \<Rightarrow> int \<Rightarrow> (int \<times> 'v) list \<Rightarrow> 'v \<times> (int \<times> 'v) list" where
  "map_index dflt k m =
     (case map_of m k of Some v \<Rightarrow> (v, m) | None \<Rightarrow> (dflt, map_set k dflt m))"

text \<open>
  \<open>push_back\<close> of a circular buffer: a full buffer drops its oldest element, a buffer of
  capacity 0 stays empty.
\<close>

definition push_back :: "CircularBuffer \<Rightarrow> Point2Df \<Rightarrow> CircularBuffer" where
  "push_back b p =
     (if capacity b = 0 then b
      else if length (items b) \<ge> capacity b then b\<lparr>items := tl (items b) @ [p]\<rparr>
      else b\<lparr>items := items b @ [p]\<rparr>)"

text \<open>
  The reprojection loop of \<open>CollectDrops\<close>,
  \<open>for (it = size - 1, count = 0; it > 0; it--, count++)\<close>, by recursion on \<open>it\<close>.
  It returns the transformed points, which the source computes and drops. The index
  \<open>motion_size - count - 1\<close> is computed in \<open>size_t\<close>: below zero it wraps to a value
  beyond every buffer, so the read is out of range exactly when the integer index is not
  between \<open>0\<close> and \<open>motion_size - 1\<close>. On an empty history the source's \<open>size - 1\<close>
  wraps, and the loop is left at its first test, since the capacity is then 0.
\<close>

fun drops_loop ::
  "CipvConsts \<Rightarrow> Matrix4f list \<Rightarrow> Point2Df list \<Rightarrow> nat \<Rightarrow> nat \<Rightarrow>
   error + Vector3d option list" where
  "drops_loop K motion_buffer traj 0 count = Inr []"
| "drops_loop K motion_buffer traj (Suc n) count =
     (if count \<ge> DROPS_HISTORY_SIZE K \<or> count > length motion_buffer then Inr []
      else
        let idx = int (length motion_buffer) - int count - 1 in
        if idx < 0 \<or> idx \<ge> int (length motion_buffer) then Inl IndexOutOfRange
        else
          let pt = (fst (traj ! Suc n), snd (traj ! Suc n), 0, 1);
              transformed_pt = TranformPoint K pt (motion_buffer ! nat idx)
          in (case drops_loop K motion_buffer traj n (count + 1) of
                Inl e \<Rightarrow> Inl e
              | Inr drops \<Rightarrow> Inr (transformed_pt # drops)))"

text \<open>The body of the first loop of \<open>CollectDrops\<close>, for one object of the list.\<close>

definition track_object :: "CipvConsts \<Rightarrow> Matrix4f list \<Rightarrow> Cipv \<Rightarrow> Object \<Rightarrow> error + Cipv" where
  "track_object K motion_buffer st obj =
     (let cur_id = track_id obj;
          (buf0, traj0) = map_index \<lparr>capacity = 0, items = []\<rparr> cur_id (object_trackjectories st);
          buf1 = (if length (items buf0) = 0 then buf0\<lparr>capacity := DROPS_HISTORY_SIZE K\<rparr>
                  else buf0);
          skip1 = map_set cur_id 0 (object_id_skip_count st);
          buf2 = push_back buf1 (fst (center obj), fst (snd (center obj)));
          traj2 = map_set cur_id buf2 traj0
      in case drops_loop K motion_buffer (items buf2) (length (items buf2) - 1) 0 of
           Inl e \<Rightarrow> Inl e
         | Inr drops \<Rightarrow>
             Inr (st\<lparr>object_trackjectories := traj2, object_id_skip_count := skip1\<rparr>))"

fun track_objects_loop ::
  "CipvConsts \<Rightarrow> Matrix4f list \<Rightarrow> Object list \<Rightarrow> Cipv \<Rightarrow> error + Cipv" where
  "track_objects_loop K motion_buffer [] st = Inr st"
| "track_objects_loop K motion_buffer (obj # rest) st =
     (case track_object K motion_buffer st obj of
        Inl e \<Rightarrow> Inl e
      | Inr st' \<Rightarrow> track_objects_loop K motion_buffer rest st')"

text \<open>
  The body of the eviction loop of \<open>CollectDrops\<close> for the key \<open>obj_id\<close>. The second
  operand of \<open>&&\<close>, with its \<open>operator[]\<close>, is evaluated only when the id was not found.
  The result is the engine after the visit, and whether the visit erased the entry under
  \<open>obj_id\<close> from the trajectory map.
\<close>

definition evict_visit :: "CipvConsts \<Rightarrow> Object list \<Rightarrow> Cipv \<Rightarrow> int \<Rightarrow> Cipv \<times> bool" where
  "evict_visit K objects st obj_id =
     (let b_found_id = (obj_id \<in> set (map track_id objects)) in
      if b_found_id then (st, False)
      else
        let (buf, traj1) = map_index \<lparr>capacity = 0, items = []\<rparr> obj_id (object_trackjectories st)
        in if length (items buf) > 0 then
             let (c, skip1) = map_index 0 obj_id (object_id_skip_count st);
                 skip2 = map_set obj_id (c + 1) skip1
             in if c + 1 \<ge> MAX_ALLOWED_SKIP_OBJECT K
                then (st\<lparr>object_trackjectories := map_erase obj_id traj1,
                         object_id_skip_count := map_erase obj_id skip2\<rparr>, True)
                else (st\<lparr>object_trackjectories := traj1, object_id_skip_count := skip2\<rparr>, False)
           else (st\<lparr>object_trackjectories := traj1\<rparr>, False))"

text \<open>
  The eviction loop, \<open>for (const auto& each_object : object_trackjectories_)\<close>, visits
  the keys of the trajectory map in ascending order; \<open>ids\<close> are the keys still to
  visit. The entry of \<open>obj_id\<close> is the one the iterator of the loop stands on. When the
  body erases it, that iterator is invalidated, and the loop goes on to increment it: the
  behaviour is undefined from there, whether or not further keys follow, and the loop does
  not return.
\<close>

fun evict_loop :: "CipvConsts \<Rightarrow> Object list \<Rightarrow> int list \<Rightarrow> Cipv \<Rightarrow> error + Cipv" where
  "evict_loop K objects [] st = Inr st"
| "evict_loop K objects (obj_id # ids) st =
     (case evict_visit K objects st obj_id of
        (st', erased) \<Rightarrow>
          if erased then Inl InvalidatedIterator else evict_loop K objects ids st')"

definition CollectDrops ::
  "CipvConsts \<Rightarrow> Cipv \<Rightarrow> Matrix4f list \<Rightarrow> Object list \<Rightarrow> error + (bool \<times> Cipv)" where
  "CollectDrops K st motion_buffer objects =
     (let motion_size = int (length motion_buffer) in
      if motion_size \<le> 0 then Inr (False, st)
      else
        (case track_objects_loop K motion_buffer objects st of
           Inl e \<Rightarrow> Inl e
         | Inr st1 \<Rightarrow>
             (case evict_loop K objects (map fst (object_trackjectories st1)) st1 of
                Inl e \<Rightarrow> Inl e
              | Inr st2 \<Rightarrow> Inr (True, st2))))"

text \<open>
  A run of \<open>CollectDrops\<close> over consecutive frames, each a motion buffer and an object
  list; it stops at the first call that does not return.
\<close>

fun CollectDrops_frames ::
  "CipvConsts \<Rightarrow> Cipv \<Rightarrow> (Matrix4f list \<times> Object list) list \<Rightarrow> error + Cipv" where
  "CollectDrops_frames K st [] = Inr st"
| "CollectDrops_frames K st ((motion_buffer, objects) # frames) =
     (case CollectDrops K st motion_buffer objects of
        Inl e \<Rightarrow> Inl e
      | Inr (r, st') \<Rightarrow> CollectDrops_frames K st' frames)"

section \<open>A sample configuration\<close>

text \<open>
  Concrete inputs at which the theorems below are evaluated. The header's constants are
  given plausible values (\<open>MAX_FLOAT\<close> is the largest \<open>float\<close>); the homography is
  the identity, so that image and ground coordinates coincide; the two lane lines run straight
  ahead at \<open>y = 7/4\<close> and \<open>y = -7/4\<close> from \<open>x = 0\<close> to \<open>x = 50\<close>.
\<close>

definition sample_consts :: CipvConsts where
  "sample_consts =
     \<lparr>AVERAGE_FRATE_RATE = 1 / 10, B_FLT_EPSILON = 1 / 1000000,
      MIN_LANE_LINE_LENGTH_FOR_CIPV_DETERMINATION = 2,
      EGO_CAR_HALF_VIRTUAL_LANE = 7 / 4,
      MAX_FLOAT = 340282346638528859811704183484516925440,
      MAX_DIST_OBJECT_TO_LANE_METER = 20, MAX_VEHICLE_WIDTH_METER = 5,
      EPSILON = 1 / 1000000, DROPS_HISTORY_SIZE = 100, MAX_ALLOWED_SKIP_OBJECT = 2\<rparr>"

definition sample_engine :: Cipv where
  "sample_engine = snd (Init sample_consts Cipv_new identity3)"

definition sample_lane_line :: "LaneLinePositionType \<Rightarrow> real \<Rightarrow> LaneLine" where
  "sample_lane_line pos y =
     \<lparr>pos_type = pos, curve_image_point_set = [(0, y), (50, y)],
      curve_car_coord_point_set = [(0, y), (50, y)]\<rparr>"

definition sample_lanes :: "LaneLine list" where
  "sample_lanes = [sample_lane_line EGO_LEFT (7 / 4), sample_lane_line EGO_RIGHT (- (7 / 4))]"

definition sample_ego_lane :: EgoLane where
  "sample_ego_lane =
     \<lparr>left_line = \<lparr>line_point = [(0, 7 / 4), (50, 7 / 4)]\<rparr>,
      right_line = \<lparr>line_point = [(0, - (7 / 4)), (50, - (7 / 4))]\<rparr>\<rparr>"

text \<open>
  An object 4 long and 2 wide, heading straight ahead, whose bounding box has its bottom
  centre at \<open>(x, y)\<close>.
\<close>

definition sample_object :: "int \<Rightarrow> real \<Rightarrow> real \<Rightarrow> bool \<Rightarrow> Object" where
  "sample_object tid x y flag =
     \<lparr>track_id = tid, object_size = (4, 2, 3 / 2), center = (x, y, 0),
      local_center = (0, 0, 1), alpha = 0,
      box = \<lparr>rect_x = x - 1, rect_y = y - 1, rect_width = 2, rect_height = 1\<rparr>,
      b_cipv = flag\<rparr>"

definition sample_motion :: Matrix4f where
  "sample_motion = ((1, 0, 0, 0), (0, 1, 0, 0), (0, 0, 1, 0), (0, 0, 0, 1))"

definition sample_homography :: Matrix3d where
  "sample_homography = ((1, 0, 0), (0, 1, 0), (0, 1, 2))"

definition empty_ego_lane :: EgoLane where
  "empty_ego_lane = \<lparr>left_line = \<lparr>line_point = []\<rparr>, right_line = \<lparr>line_point = []\<rparr>\<rparr>"

section \<open>Predicates of the specification\<close>

text \<open>
  \<open>selection_of Q objects n c\<close>: among the first \<open>n\<close> objects, \<open>c\<close> is the index
  that the selection rule picks when \<open>Q\<close> tells which objects qualify: \<open>-1\<close> when
  none does, otherwise the first qualifying object of least forward coordinate
  \<open>center[0]\<close>.
\<close>

definition selection_of :: "(Object \<Rightarrow> bool) \<Rightarrow> Object list \<Rightarrow> nat \<Rightarrow> int \<Rightarrow> bool" where
  "selection_of Q objects n c \<longleftrightarrow>
     - 1 \<le> c \<and> c < int n \<and>
     (if c < 0 then \<forall>j<n. \<not> Q (objects ! j)
      else Q (objects ! nat c) \<and>
           (\<forall>j<n. Q (objects ! j) \<longrightarrow>
                    fst (center (objects ! nat c)) \<le> fst (center (objects ! j)) \<and>
                    (j < nat c \<longrightarrow> fst (center (objects ! nat c)) < fst (center (objects ! j)))))"

text \<open>
  The keys of a \<open>std::map\<close> are strictly ascending; every operation of the model keeps
  them so.
\<close>

definition keys_ascending :: "(int \<times> 'v) list \<Rightarrow> bool" where
  "keys_ascending m \<longleftrightarrow> sorted_wrt (<) (map fst m)"

section \<open>Auxiliary facts\<close>


lemma DBL_MIN_small: "DBL_MIN < 1 / 1024"
proof -
  have "(1024::real) = 2 ^ 10" by simp
  also have "\<dots> < 2 ^ 1022" by (rule power_strict_increasing) simp_all
  finally have "(1024::real) < 2 ^ 1022" .
  then show ?thesis unfolding DBL_MIN_def
    by (simp add: field_simps)
qed

lemma inverse3_left:
  assumes "determinant H \<noteq> 0"
  shows "mat_vec (inverse3 H) (mat_vec H v) = v"
proof -
  obtain a b c d e f g h i where H: "H = ((a, b, c), (d, e, f), (g, h, i))"
    by (metis prod_cases3)
  obtain x y z where v: "v = (x, y, z)" by (metis prod_cases3)
  define dt where "dt = determinant H"
  have dt: "dt \<noteq> 0" using assms dt_def by simp
  have dte: "dt = a * (e * i - f * h) - b * (d * i - f * g) + c * (d * h - e * g)"
    by (simp add: dt_def determinant_def H)
  have 1: "((e * i - f * h) * (a * x + b * y + c * z) + (c * h - b * i) * (d * x + e * y + f * z)
            + (b * f - c * e) * (g * x + h * y + i * z)) = dt * x"
    unfolding dte by (simp add: algebra_simps)
  have 2: "((f * g - d * i) * (a * x + b * y + c * z) + (a * i - c * g) * (d * x + e * y + f * z)
            + (c * d - a * f) * (g * x + h * y + i * z)) = dt * y"
    unfolding dte by (simp add: algebra_simps)
  have 3: "((d * h - e * g) * (a * x + b * y + c * z) + (b * g - a * h) * (d * x + e * y + f * z)
            + (a * e - b * d) * (g * x + h * y + i * z)) = dt * z"
    unfolding dte by (simp add: algebra_simps)
  have q: "\<And>p q r. p / dt + q / dt + r / dt = (p + q + r) / dt"
    by (simp add: add_divide_distrib)
  have "mat_vec (inverse3 H) (mat_vec H v) = (dt * x / dt, dt * y / dt, dt * z / dt)"
    unfolding H v inverse3_def mat_vec_def Let_def
    by (simp add: dt_def[symmetric, unfolded H] q 1 2 3)
  then show ?thesis using dt by (simp add: v)
qed

lemma inverse3_right:
  assumes "determinant H \<noteq> 0"
  shows "mat_vec H (mat_vec (inverse3 H) v) = v"
proof -
  obtain a b c d e f g h i where H: "H = ((a, b, c), (d, e, f), (g, h, i))"
    by (metis prod_cases3)
  obtain x y z where v: "v = (x, y, z)" by (metis prod_cases3)
  define dt where "dt = determinant H"
  have dt: "dt \<noteq> 0" using assms dt_def by simp
  have dte: "dt = a * (e * i - f * h) - b * (d * i - f * g) + c * (d * h - e * g)"
    by (simp add: dt_def determinant_def H)
  have 1: "a * ((e * i - f * h) * x + (c * h - b * i) * y + (b * f - c * e) * z)
         + b * ((f * g - d * i) * x + (a * i - c * g) * y + (c * d - a * f) * z)
         + c * ((d * h - e * g) * x + (b * g - a * h) * y + (a * e - b * d) * z) = dt * x"
    unfolding dte by (simp add: algebra_simps)
  have 2: "d * ((e * i - f * h) * x + (c * h - b * i) * y + (b * f - c * e) * z)
         + e * ((f * g - d * i) * x + (a * i - c * g) * y + (c * d - a * f) * z)
         + f * ((d * h - e * g) * x + (b * g - a * h) * y + (a * e - b * d) * z) = dt * y"
    unfolding dte by (simp add: algebra_simps)
  have 3: "g * ((e * i - f * h) * x + (c * h - b * i) * y + (b * f - c * e) * z)
         + h * ((f * g - d * i) * x + (a * i - c * g) * y + (c * d - a * f) * z)
         + i * ((d * h - e * g) * x + (b * g - a * h) * y + (a * e - b * d) * z) = dt * z"
    unfolding dte by (simp add: algebra_simps)
  have q: "\<And>p q r. p / dt + q / dt + r / dt = (p + q + r) / dt"
    by (simp add: add_divide_distrib)
  have r: "\<And>k p q r s t u. k * (p * s / dt + q * t / dt + r * u / dt) = k * (p * s + q * t + r * u) / dt"
    by (simp add: add_divide_distrib distrib_left)
  have "mat_vec H (mat_vec (inverse3 H) v) = (dt * x / dt, dt * y / dt, dt * z / dt)"
    unfolding H v inverse3_def mat_vec_def Let_def
    by (simp add: dt_def[symmetric, unfolded H] q r 1 2 3)
  then show ?thesis using dt by (simp add: v)
qed


lemma virtual_ego_lane_loop_unfold:
  "virtual_ego_lane_loop st yaw vel off i left right =
     (if i < 120 then
        virtual_ego_lane_loop st yaw vel off (i + 5)
          (left @ [(time_unit st * vel, off)]) (right @ [(time_unit st * vel, - off)])
      else (left, right))"
  by (subst virtual_ego_lane_loop.simps) (simp add: VehicleDynamics_def)

lemma virtual_ego_lane_loop_result:
  "virtual_ego_lane_loop st yaw vel off 0 [] [] =
     (replicate 24 (time_unit st * vel, off), replicate 24 (time_unit st * vel, - off))"
  apply (subst virtual_ego_lane_loop_unfold, simp)+
  apply (simp add: eval_nat_numeral)
  done

section \<open>Initialisation and the coordinate transform\<close>

text \<open>
  C6, as the code has it. \<open>Init\<close> has no failure path: it reports success for every
  matrix, a singular one included. It stores the matrix and the result of the cofactor
  inverse, which is a two-sided inverse whenever the determinant is not zero.
\<close>

theorem Init_always_succeeds:
  "fst (Init K st H) \<and>
   homography_im2car (snd (Init K st H)) = H \<and>
   homography_car2im (snd (Init K st H)) = inverse3 H \<and>
   (determinant H \<noteq> 0 \<longrightarrow>
      (\<forall>v. mat_vec (inverse3 H) (mat_vec H v) = v \<and> mat_vec H (mat_vec (inverse3 H) v) = v))"
  by (simp add: Init_def inverse3_left inverse3_right)

theorem Init_always_succeeds_witness:
  "fst (Init sample_consts Cipv_new sample_homography) \<and>
   determinant sample_homography \<noteq> 0 \<and>
   homography_car2im (snd (Init sample_consts Cipv_new sample_homography))
     = ((1, 0, 0), (0, 1, 0), (0, - (1 / 2), 1 / 2)) \<and>
   mat_vec (inverse3 sample_homography) (mat_vec sample_homography (3, 4, 1)) = (3, 4, 1)"
proof -
  have d: "determinant sample_homography \<noteq> 0"
    by (simp add: determinant_def sample_homography_def)
  have i: "inverse3 sample_homography = ((1, 0, 0), (0, 1, 0), (0, - (1 / 2), 1 / 2))"
    by (simp add: inverse3_def determinant_def sample_homography_def)
  show ?thesis
    using Init_always_succeeds [of sample_consts Cipv_new sample_homography] d i by simp
qed

text \<open>
  The claim C6 as stated fails on the zero matrix, which is singular and for which
  \<open>Init\<close> returns \<open>true\<close>.
\<close>

theorem Init_singular_reports_success:
  "determinant zero3 = 0 \<and> fst (Init sample_consts Cipv_new zero3)"
  by (simp add: determinant_def zero3_def Init_def)



section \<open>Virtual ego lanes\<close>

text \<open>
  C4, evaluated on the code: with no valid lane line, velocity 10 and time unit 1/10,
  \<open>ElongateEgoLane\<close> makes 24 pairs with \<open>y = 7/4\<close> and \<open>y = -7/4\<close>, but every
  pair has \<open>x = 1\<close>: \<open>VehicleDynamics\<close> ignores the tick it is given, so \<open>x\<close> is
  not \<open>stepIndex * 0.1 * 10\<close> along the schedule 0, 5, .., 115.
\<close>

theorem ElongateEgoLane_no_lanes_constant_x:
  "ElongateEgoLane sample_consts (sample_engine\<lparr>time_unit := 1 / 10\<rparr>) [] False False 0 10
       empty_ego_lane empty_ego_lane =
     Inr (empty_ego_lane,
          \<lparr>left_line = \<lparr>line_point = replicate 24 (1, 7 / 4)\<rparr>,
           right_line = \<lparr>line_point = replicate 24 (1, - (7 / 4))\<rparr>\<rparr>)
   \<and> replicate 24 (1::real) \<noteq> map (\<lambda>k. real (5 * k) * (1 / 10) * 10) [0..<24]"
proof -
  have "replicate 24 (1::real) ! 0 \<noteq> map (\<lambda>k. real (5 * k) * (1 / 10) * 10) [0..<24] ! 0"
    by simp
  then have ne: "replicate 24 (1::real) \<noteq> map (\<lambda>k. real (5 * k) * (1 / 10) * 10) [0..<24]"
    by metis
  show ?thesis using ne
  by (simp add: ElongateEgoLane_def MakeVirtualEgoLaneFromYawRate_def
      virtual_ego_lane_loop_result sample_engine_def Init_def Cipv_new_def sample_consts_def
      empty_ego_lane_def)
qed

text \<open>
  C5, as the code has it: with only the right boundary valid, at constant \<open>y = r\<close>, the
  synthesised left boundary is the right boundary shifted by the offset
  \<open>-(|r| + halfLaneWidth)\<close>: it lies at \<open>y = r - (|r| + halfLaneWidth)\<close> at every
  index, with the \<open>x\<close> of the right boundary's point of the same index.
\<close>

theorem ElongateEgoLane_right_only:
  assumes "\<not> b_image_based_cipv st"
    and "line_point (right_line egolane_ground) \<noteq> []"
    and "\<forall>p \<in> set (line_point (right_line egolane_ground)). snd p = r"
  shows "ElongateEgoLane K st lane_objects False True yaw vel egolane_image egolane_ground =
     Inr (egolane_image,
          egolane_ground\<lparr>left_line :=
            \<lparr>line_point = map (\<lambda>p. (fst p, r - (\<bar>r\<bar> + EGO_CAR_HALF_VIRTUAL_LANE K)))
                             (line_point (right_line egolane_ground))\<rparr>\<rparr>)"
proof -
  obtain p0 ps where ps: "line_point (right_line egolane_ground) = p0 # ps"
    using assms(2) by (cases "line_point (right_line egolane_ground)") auto
  with assms(3) have r0: "snd p0 = r" by simp
  have "map (\<lambda>p. (fst p, snd p + - (\<bar>r\<bar> + EGO_CAR_HALF_VIRTUAL_LANE K))) (line_point (right_line egolane_ground))
      = map (\<lambda>p. (fst p, r - (\<bar>r\<bar> + EGO_CAR_HALF_VIRTUAL_LANE K))) (line_point (right_line egolane_ground))"
    using assms(3) by (intro map_cong) auto
  then show ?thesis
    using assms(1) r0 by (simp add: ElongateEgoLane_def MakeVirtualLane_def ps Let_def)
qed

theorem ElongateEgoLane_right_only_witness:
  "\<not> b_image_based_cipv sample_engine \<and>
   ElongateEgoLane sample_consts sample_engine [] False True 0 10
       \<lparr>left_line = \<lparr>line_point = []\<rparr>, right_line = \<lparr>line_point = []\<rparr>\<rparr>
       \<lparr>left_line = \<lparr>line_point = []\<rparr>,
        right_line = \<lparr>line_point = [(0, 3), (50, 3)]\<rparr>\<rparr> =
     Inr (\<lparr>left_line = \<lparr>line_point = []\<rparr>, right_line = \<lparr>line_point = []\<rparr>\<rparr>,
          \<lparr>left_line = \<lparr>line_point = [(0, - (7 / 4)), (50, - (7 / 4))]\<rparr>,
           right_line = \<lparr>line_point = [(0, 3), (50, 3)]\<rparr>\<rparr>)"
proof -
  have a: "\<not> b_image_based_cipv sample_engine"
    by (simp add: sample_engine_def Init_def)
  show ?thesis
    using ElongateEgoLane_right_only [OF a, of
        "\<lparr>left_line = \<lparr>line_point = []\<rparr>, right_line = \<lparr>line_point = [(0, 3), (50, 3)]\<rparr>\<rparr>"
        3 sample_consts "[]" 0 10 "\<lparr>left_line = \<lparr>line_point = []\<rparr>, right_line = \<lparr>line_point = []\<rparr>\<rparr>"] a
    by (simp add: sample_consts_def)
qed

text \<open>
  The claim C5 as stated fails for a right boundary at \<open>r = -7/4\<close>: the left boundary is
  put at \<open>-21/4\<close>, not at \<open>-(|r| + halfLaneWidth) = -7/2\<close>.
\<close>

theorem ElongateEgoLane_right_only_counterexample:
  "ElongateEgoLane sample_consts sample_engine [] False True 0 10
       \<lparr>left_line = \<lparr>line_point = []\<rparr>, right_line = \<lparr>line_point = []\<rparr>\<rparr>
       \<lparr>left_line = \<lparr>line_point = []\<rparr>,
        right_line = \<lparr>line_point = [(0, - (7 / 4)), (50, - (7 / 4))]\<rparr>\<rparr> =
     Inr (\<lparr>left_line = \<lparr>line_point = []\<rparr>, right_line = \<lparr>line_point = []\<rparr>\<rparr>,
          \<lparr>left_line = \<lparr>line_point = [(0, - (21 / 4)), (50, - (21 / 4))]\<rparr>,
           right_line = \<lparr>line_point = [(0, - (7 / 4)), (50, - (7 / 4))]\<rparr>\<rparr>)
   \<and> - (21 / 4) \<noteq> - (\<bar>- (7 / 4)\<bar> + EGO_CAR_HALF_VIRTUAL_LANE sample_consts)"
  by (simp add: ElongateEgoLane_def MakeVirtualLane_def sample_engine_def Init_def
      Cipv_new_def sample_consts_def)

section \<open>Trajectory histories\<close>

text \<open>
  C8: with an empty motion buffer \<open>CollectDrops\<close> returns \<open>false\<close> and leaves the
  engine, the trajectory map and the absence counters included, as it was.
\<close>

theorem CollectDrops_empty_motion_buffer:
  "CollectDrops K st [] objects = Inr (False, st)"
  by (simp add: CollectDrops_def)

text \<open>
  The reprojection loop reads outside the motion buffer exactly when the buffer is shorter
  than both the number of iterations the history allows and the history capacity: the loop
  is left on \<open>count > size\<close>, one step after \<open>count = size\<close> has produced the index
  \<open>-1\<close>.
\<close>

lemma drops_loop_out_of_range_iff:
  "count \<le> length motion_buffer \<Longrightarrow>
   drops_loop K motion_buffer traj n count = Inl IndexOutOfRange \<longleftrightarrow>
     length motion_buffer < count + n \<and> length motion_buffer < DROPS_HISTORY_SIZE K"
proof (induction n arbitrary: count)
  case 0
  then show ?case by simp
next
  case (Suc n)
  show ?case
  proof (cases "count = length motion_buffer")
    case True
    then show ?thesis by (auto simp: Let_def)
  next
    case False
    with Suc.prems have lt: "count < length motion_buffer" by simp
    then have "Suc count \<le> length motion_buffer" by simp
    from Suc.IH [OF this] lt show ?thesis
      by (auto simp: Let_def split: sum.splits)
  qed
qed

text \<open>
  C3, evaluated on the code: a track seen in three consecutive frames, each with a motion
  buffer of length 1. The first two calls return; in the third the history has three points,
  the second iteration of the loop has \<open>count = 1 = motionCount\<close>, and the index
  \<open>motionCount - count - 1 = -1\<close> is outside the buffer.
\<close>

theorem CollectDrops_motion_index_out_of_range:
  "CollectDrops_frames sample_consts sample_engine
     [([sample_motion], [sample_object 7 10 0 False]),
      ([sample_motion], [sample_object 7 11 0 False])] =
   Inr (sample_engine\<lparr>object_trackjectories := [(7, \<lparr>capacity = 100, items = [(10, 0), (11, 0)]\<rparr>)],
                      object_id_skip_count := [(7, 0)]\<rparr>) \<and>
   CollectDrops sample_consts
     (sample_engine\<lparr>object_trackjectories := [(7, \<lparr>capacity = 100, items = [(10, 0), (11, 0)]\<rparr>)],
                      object_id_skip_count := [(7, 0)]\<rparr>)
     [sample_motion] [sample_object 7 12 0 False] = Inl IndexOutOfRange \<and>
   drops_loop sample_consts [sample_motion] [(10, 0), (11, 0), (12, 0)] 2 0 = Inl IndexOutOfRange"
  by (simp add: CollectDrops_def track_object_def map_index_def push_back_def evict_visit_def
      sample_engine_def Init_def Cipv_new_def sample_consts_def sample_object_def Let_def
      eval_nat_numeral)

section \<open>The closest edge of an object\<close>

lemma all_less_4: "(\<forall>i<4. P (i::nat)) \<longleftrightarrow> P 0 \<and> P 1 \<and> P 2 \<and> P 3"
  by (auto simp: eval_nat_numeral less_Suc_eq)

lemma closest_corner_loop_four:
  assumes "closest_corner_loop [p0, p1, p2, p3] 0 (M, M - 1, - 1, - 1) = (cx, sx, ci, si)"
    and "fst p0 \<le> M" and "fst p1 \<le> M"
  shows "0 \<le> ci \<and> ci < 4 \<and> 0 \<le> si \<and> si < 4 \<and> ci \<noteq> si \<and>
         (\<forall>i<4. fst ([p0, p1, p2, p3] ! nat ci) \<le> fst ([p0, p1, p2, p3] ! i)) \<and>
         (\<forall>i<4. i \<noteq> nat ci \<longrightarrow> fst ([p0, p1, p2, p3] ! nat si) \<le> fst ([p0, p1, p2, p3] ! i))"
proof -
  from assms show ?thesis
    unfolding all_less_4
    by (simp split: if_splits) 
qed

lemma sample_footprint:
  "image2ground sample_engine x y = Some (x, y)"
  using DBL_MIN_small
  by (simp add: image2ground_def sample_engine_def Init_def identity3_def inverse3_def mat_vec_def)

lemma sample_theta: "object_theta (sample_object tid x y flag) = 0"
  by (simp add: object_theta_def sample_object_def atan2_def)

lemma sample_corners:
  "footprint_corners 4 2 0 x y = [(x - 2, y + 1), (x - 2, y - 1), (x + 2, y + 1), (x + 2, y - 1)]"
  by (simp add: footprint_corners_def)

lemma sample_object_fields:
  "object_size (sample_object tid x y flag) = (4, 2, 3 / 2)"
  "box (sample_object tid x y flag) = \<lparr>rect_x = x - 1, rect_y = y - 1, rect_width = 2, rect_height = 1\<rparr>"
  "center (sample_object tid x y flag) = (x, y, 0)"
  "track_id (sample_object tid x y flag) = tid"
  "b_cipv (sample_object tid x y flag) = flag"
  by (simp_all add: sample_object_def)

text \<open>
  C10: for an object of non-degenerate size whose footprint centre could be computed, with
  corners \<open>p\<close> (none beyond \<open>MAX_FLOAT\<close>, as for every finite \<open>float\<close>) of which
  the nearest has a negative \<open>x\<close>, \<open>FindClosestEdgeOfObjectGround\<close> returns
  \<open>false\<close> after it has written the out-parameter: \<open>c\<close> is a corner of least
  \<open>x\<close>, \<open>s\<close> one of least \<open>x\<close> among the others, the edge starts at the one of
  the two with the larger \<open>y\<close> and ends at the other.
\<close>

theorem FindClosestEdgeOfObjectGround_behind_writes_edge:
  assumes sz: "object_size object = (size_x, size_y, size_z)"
    and nondeg: "\<not> (size_x < 1 / 100 \<and> size_y < 1 / 100 \<and> size_z < 1 / 100)"
    and centre: "image2ground st (rect_x (box object) + rect_width (box object) * (1 / 2))
                   (rect_y (box object) + rect_height (box object)) = Some (center_x, center_y)"
    and p: "p = footprint_corners size_x size_y (object_theta object) center_x center_y"
    and bounded: "\<forall>i<4. fst (p ! i) \<le> MAX_FLOAT K"
    and behind: "Min (set (map fst p)) < 0"
  shows "\<exists>c s. c < 4 \<and> s < 4 \<and> c \<noteq> s \<and>
           (\<forall>i<4. fst (p ! c) \<le> fst (p ! i)) \<and>
           (\<forall>i<4. i \<noteq> c \<longrightarrow> fst (p ! s) \<le> fst (p ! i)) \<and>
           FindClosestEdgeOfObjectGround K st object egolane_ground =
             Inr (False,
                  Some \<lparr>start_point = (if snd (p ! c) \<ge> snd (p ! s) then p ! c else p ! s),
                        end_point = (if snd (p ! c) \<ge> snd (p ! s) then p ! s else p ! c)\<rparr>)"
proof -
  obtain p0 p1 p2 p3 where pl: "p = [p0, p1, p2, p3]"
    using p by (simp add: footprint_corners_def Let_def)
  obtain cx sx ci si where
    loop: "closest_corner_loop p 0 (MAX_FLOAT K, MAX_FLOAT K - 1, - 1, - 1) = (cx, sx, ci, si)"
    by (metis prod_cases4)
  from bounded have b0: "fst p0 \<le> MAX_FLOAT K" and b1: "fst p1 \<le> MAX_FLOAT K"
    by (simp_all add: pl all_less_4)
  note props = closest_corner_loop_four [OF loop [unfolded pl] b0 b1, folded pl]
  define c where "c = nat ci"
  define s where "s = nat si"
  from props have c4: "c < 4" and s4: "s < 4" and cs: "c \<noteq> s"
    and cmin: "\<forall>i<4. fst (p ! c) \<le> fst (p ! i)"
    and smin: "\<forall>i<4. i \<noteq> c \<longrightarrow> fst (p ! s) \<le> fst (p ! i)"
    by (auto simp: c_def s_def)
  have "Min (set (map fst p)) \<in> set (map fst p)"
    by (rule Min_in) (simp_all add: pl)
  then have "Min (set (map fst p)) = fst p0 \<or> Min (set (map fst p)) = fst p1 \<or>
             Min (set (map fst p)) = fst p2 \<or> Min (set (map fst p)) = fst p3"
    unfolding pl by simp
  moreover from cmin have "fst (p ! c) \<le> fst p0 \<and> fst (p ! c) \<le> fst p1 \<and>
                            fst (p ! c) \<le> fst p2 \<and> fst (p ! c) \<le> fst p3"
    unfolding all_less_4 by (simp add: pl)
  ultimately have neg: "fst (p ! c) < 0"
    using behind by linarith
  have "FindClosestEdgeOfObjectGround K st object egolane_ground = closest_edge K p"
    using nondeg centre by (auto simp add: FindClosestEdgeOfObjectGround_def sz p Let_def)
  also have "\<dots> = Inr (False,
                  Some \<lparr>start_point = (if snd (p ! c) \<ge> snd (p ! s) then p ! c else p ! s),
                        end_point = (if snd (p ! c) \<ge> snd (p ! s) then p ! s else p ! c)\<rparr>)"
    using props neg by (simp add: closest_edge_def loop c_def s_def Let_def)
  finally show ?thesis using c4 s4 cs cmin smin by blast
qed

theorem FindClosestEdgeOfObjectGround_behind_writes_edge_witness:
  "\<not> ((4::real) < 1 / 100 \<and> (2::real) < 1 / 100 \<and> (3 / 2 ::real) < 1 / 100) \<and>
   Min (set (map fst (footprint_corners 4 2 0 (- 10) 0))) < 0 \<and>
   (\<exists>e. FindClosestEdgeOfObjectGround sample_consts sample_engine
           (sample_object 1 (- 10) 0 False) sample_ego_lane = Inr (False, Some e))"
proof -
  have a: "object_size (sample_object 1 (- 10) 0 False) = (4, 2, 3 / 2)"
    by (simp add: sample_object_fields)
  have b: "\<not> ((4::real) < 1 / 100 \<and> (2::real) < 1 / 100 \<and> (3 / 2 ::real) < 1 / 100)"
    by simp
  have c: "image2ground sample_engine
             (rect_x (box (sample_object 1 (- 10) 0 False))
                + rect_width (box (sample_object 1 (- 10) 0 False)) * (1 / 2))
             (rect_y (box (sample_object 1 (- 10) 0 False))
                + rect_height (box (sample_object 1 (- 10) 0 False))) = Some (- 10, 0)"
    by (simp add: sample_footprint sample_object_fields)
  have d: "footprint_corners 4 2 0 (- 10) 0
             = footprint_corners 4 2 (object_theta (sample_object 1 (- 10) 0 False)) (- 10) 0"
    by (simp add: sample_theta)
  have e: "\<forall>i<4. fst (footprint_corners 4 2 0 (- 10) 0 ! i) \<le> MAX_FLOAT sample_consts"
    by (simp add: sample_corners sample_consts_def all_less_4)
  have f: "Min (set (map fst (footprint_corners 4 2 0 (- 10) 0))) < 0"
    by (simp add: sample_corners)
  from FindClosestEdgeOfObjectGround_behind_writes_edge [OF a b c d e f, of sample_ego_lane]
  have "\<exists>e. FindClosestEdgeOfObjectGround sample_consts sample_engine
           (sample_object 1 (- 10) 0 False) sample_ego_lane = Inr (False, Some e)"
    by blast
  with b f show ?thesis by blast
qed

section \<open>Lane containment\<close>

lemma sample_edge:
  "FindClosestEdgeOfObjectGround sample_consts sample_engine (sample_object tid 100 0 flag) lane
     = Inr (True, Some \<lparr>start_point = (98, 1), end_point = (98, - 1)\<rparr>)"
  by (simp add: FindClosestEdgeOfObjectGround_def sample_footprint sample_theta sample_corners
      sample_object_def[of tid 100 0 flag, THEN arg_cong [where f = object_size]]
      sample_object_def[of tid 100 0 flag, THEN arg_cong [where f = box]]
      closest_edge_def sample_consts_def)

lemma sqrt_less_bound: "0 \<le> y \<Longrightarrow> x < y * y \<Longrightarrow> sqrt x < y"
  by (rule real_less_lsqrt) (simp_all add: power2_eq_square)

text \<open>
  C2, evaluated on the code: an object 100 m ahead, between the lines of a lane that ends
  at \<open>x = 50\<close>. The start point of its near edge is more than 48 m away from the right
  lane line, beyond the maximum of 20 m, and \<open>IsObjectInTheLaneGround\<close> still returns
  \<open>true\<close>: the gate \<open>AreDistancesSane\<close> is called on four zeros, never on the
  measured distances.
\<close>

theorem IsObjectInTheLaneGround_ignores_distances:
  "IsObjectInTheLaneGround sample_consts sample_engine (sample_object 1 100 0 False) sample_ego_lane
     = Inr True \<and>
   FindClosestEdgeOfObjectGround sample_consts sample_engine (sample_object 1 100 0 False) sample_ego_lane
     = Inr (True, Some \<lparr>start_point = (98, 1), end_point = (98, - 1)\<rparr>) \<and>
   DistanceFromPointToLineSegment sample_consts (98, 1) (0, - (7 / 4)) (50, - (7 / 4))
     = Some (sqrt (36985 / 16)) \<and>
   sqrt (36985 / 16) > MAX_DIST_OBJECT_TO_LANE_METER sample_consts"
proof -
  have d: "DistanceFromPointToLineSegment sample_consts (98, 1) (0, - (7 / 4)) (50, - (7 / 4))
     = Some (sqrt (36985 / 16))"
    by (simp add: DistanceFromPointToLineSegment_def DistanceTo_def length_sqr_def sample_consts_def)
  have e: "DistanceFromPointToLineSegment sample_consts (98, - 1) (0, 7 / 4) (50, 7 / 4)
     = Some (sqrt (36985 / 16))"
    by (simp add: DistanceFromPointToLineSegment_def DistanceTo_def length_sqr_def sample_consts_def)
  have m: "sqrt (36985 / 16) < MAX_FLOAT sample_consts"
    by (rule sqrt_less_bound) (simp_all add: sample_consts_def)
  have g: "sqrt (36985 / 16) > MAX_DIST_OBJECT_TO_LANE_METER sample_consts"
    by (rule real_less_rsqrt) (simp add: sample_consts_def)
  have s: "AreDistancesSane sample_consts 0 0 0 0"
    by (simp add: AreDistancesSane_def sample_consts_def)
  have "IsObjectInTheLaneGround sample_consts sample_engine (sample_object 1 100 0 False) sample_ego_lane
     = Inr True"
    using m by (simp add: IsObjectInTheLaneGround_def sample_edge sample_ego_lane_def d e s
        IsPointLeftOfLine_def)
  with d g show ?thesis by (simp add: sample_edge)
qed

section \<open>CIPV selection\<close>

lemma sample_edge_10_0:
  "FindClosestEdgeOfObjectGround sample_consts sample_engine (sample_object tid 10 0 flag) lane
     = Inr (True, Some \<lparr>start_point = (8, 1), end_point = (8, - 1)\<rparr>)"
  by (simp add: FindClosestEdgeOfObjectGround_def sample_footprint sample_theta sample_corners
      sample_object_fields closest_edge_def sample_consts_def)

lemma sample_edge_10_5:
  "FindClosestEdgeOfObjectGround sample_consts sample_engine (sample_object tid 10 5 flag) lane
     = Inr (True, Some \<lparr>start_point = (8, 6), end_point = (8, 4)\<rparr>)"
  by (simp add: FindClosestEdgeOfObjectGround_def sample_footprint sample_theta sample_corners
      sample_object_fields closest_edge_def sample_consts_def)

lemma sample_distance_perpendicular:
  assumes "0 \<le> x" "x \<le> 50"
  shows "DistanceFromPointToLineSegment sample_consts (x, y) (0, l) (50, l) = Some \<bar>y - l\<bar>"
proof -
  have "x * 50 / 2500 * 50 = x" by simp
  moreover have "\<not> x * 50 / 2500 < 0" using assms by simp
  moreover have "\<not> x * 50 / 2500 > 1" using assms by simp
  ultimately show ?thesis
    by (simp add: DistanceFromPointToLineSegment_def DistanceTo_def length_sqr_def
        sample_consts_def Let_def)
qed

lemma sample_closest_segment:
  assumes "0 \<le> x" "x \<le> 50" "\<bar>y - l\<bar> < 1000"
  shows "closest_segment_loop sample_consts (x, y) [(0, l), (50, l)] 0 (- 1, MAX_FLOAT sample_consts)
           = (0, \<bar>y - l\<bar>)"
proof -
  have "\<bar>y - l\<bar> < MAX_FLOAT sample_consts"
    using assms(3) by (simp add: sample_consts_def)
  then show ?thesis
    by (simp add: sample_distance_perpendicular [OF assms(1,2)])
qed

lemma sample_gate: "AreDistancesSane sample_consts 0 0 0 0"
  by (simp add: AreDistancesSane_def sample_consts_def)

lemma sample_in_lane_10_0:
  "IsObjectInTheLane sample_consts sample_engine (sample_object tid 10 0 flag)
     sample_ego_lane sample_ego_lane = Inr True"
proof -
  have b: "\<not> b_image_based_cipv sample_engine" by (simp add: sample_engine_def Init_def)
  have l: "closest_segment_loop sample_consts (8, - 1) [(0, 7 / 4), (50, 7 / 4)] 0 (- 1, MAX_FLOAT sample_consts)
           = (0, \<bar>- 1 - 7 / 4\<bar>)"
    by (rule sample_closest_segment) simp_all
  have r: "closest_segment_loop sample_consts (8, 1) [(0, - (7 / 4)), (50, - (7 / 4))] 0 (- 1, MAX_FLOAT sample_consts)
           = (0, \<bar>1 - - (7 / 4)\<bar>)"
    by (rule sample_closest_segment) simp_all
  show ?thesis
    using b by (simp add: IsObjectInTheLane_def IsObjectInTheLaneGround_def sample_edge_10_0
        sample_ego_lane_def l r sample_gate IsPointLeftOfLine_def
        del: closest_segment_loop.simps)
qed

lemma sample_in_lane_10_5:
  "IsObjectInTheLane sample_consts sample_engine (sample_object tid 10 5 flag)
     sample_ego_lane sample_ego_lane = Inr False"
proof -
  have b: "\<not> b_image_based_cipv sample_engine" by (simp add: sample_engine_def Init_def)
  have l: "closest_segment_loop sample_consts (8, 4) [(0, 7 / 4), (50, 7 / 4)] 0 (- 1, MAX_FLOAT sample_consts)
           = (0, \<bar>4 - 7 / 4\<bar>)"
    by (rule sample_closest_segment) simp_all
  have r: "closest_segment_loop sample_consts (8, 6) [(0, - (7 / 4)), (50, - (7 / 4))] 0 (- 1, MAX_FLOAT sample_consts)
           = (0, \<bar>6 - - (7 / 4)\<bar>)"
    by (rule sample_closest_segment) simp_all
  show ?thesis
    using b by (simp add: IsObjectInTheLane_def IsObjectInTheLaneGround_def sample_edge_10_5
        sample_ego_lane_def l r sample_gate IsPointLeftOfLine_def
        del: closest_segment_loop.simps)
qed

lemma sample_GetEgoLane:
  "GetEgoLane sample_consts sample_lanes empty_ego_lane empty_ego_lane False False
     = Inr (sample_ego_lane, sample_ego_lane, True, True)"
  by (simp add: sample_lanes_def sample_lane_line_def empty_ego_lane_def sample_ego_lane_def
      sample_consts_def)

lemma sample_ElongateEgoLane:
  "ElongateEgoLane K st lanes True True yaw vel sample_ego_lane sample_ego_lane
     = Inr (sample_ego_lane, sample_ego_lane)"
  by (simp add: ElongateEgoLane_def)

lemma selection_of_step:
  assumes "selection_of Q objects n ci"
  shows "selection_of Q objects (Suc n)
           (if Q (objects ! n) \<and> (ci < 0 \<or> fst (center (objects ! n)) < fst (center (objects ! nat ci)))
            then int n else ci)"
proof (cases "Q (objects ! n) \<and> (ci < 0 \<or> fst (center (objects ! n)) < fst (center (objects ! nat ci)))")
  case True
  have less: "fst (center (objects ! n)) < fst (center (objects ! j))"
    if "j < n" "Q (objects ! j)" for j
  proof (cases "ci < 0")
    case True
    with assms that show ?thesis by (simp add: selection_of_def)
  next
    case False
    with assms that have "fst (center (objects ! nat ci)) \<le> fst (center (objects ! j))"
      by (simp add: selection_of_def)
    moreover from False True
    have "fst (center (objects ! n)) < fst (center (objects ! nat ci))" by simp
    ultimately show ?thesis by simp
  qed
  have "selection_of Q objects (Suc n) (int n)"
    unfolding selection_of_def using True less by (auto simp: less_Suc_eq less_imp_le)
  with True show ?thesis by simp
next
  case False
  with assms show ?thesis
    unfolding selection_of_def
    by (auto simp: less_Suc_eq)
qed

lemma select_cipv_loop_selection:
  assumes "select_cipv_loop K st ei eg objects rest (int (length pre)) ci = Inr c"
    and "objects = pre @ rest"
    and "selection_of (\<lambda>ob. IsObjectInTheLane K st ob ei eg = Inr True) objects (length pre) ci"
  shows "selection_of (\<lambda>ob. IsObjectInTheLane K st ob ei eg = Inr True) objects (length objects) c"
  using assms
proof (induction rest arbitrary: pre ci)
  case Nil
  then show ?case by simp
next
  case (Cons obj rest)
  let ?Q = "\<lambda>ob. IsObjectInTheLane K st ob ei eg = Inr True"
  from Cons.prems(2) have nth: "objects ! length pre = obj" by simp
  from Cons.prems(1) obtain b where b: "IsObjectInTheLane K st obj ei eg = Inr b"
    by (auto split: sum.splits)
  define ci' where "ci' = (if ?Q (objects ! length pre) \<and>
        (ci < 0 \<or> fst (center (objects ! length pre)) < fst (center (objects ! nat ci)))
      then int (length pre) else ci)"
  have step: "selection_of ?Q objects (Suc (length pre)) ci'"
    unfolding ci'_def by (rule selection_of_step [OF Cons.prems(3)])
  have run: "select_cipv_loop K st ei eg objects rest (int (length (pre @ [obj]))) ci' = Inr c"
    using Cons.prems(1) b by (auto simp: ci'_def nth add.commute split: if_splits)
  have "objects = (pre @ [obj]) @ rest" using Cons.prems(2) by simp
  from Cons.IH [OF run this] step show ?case by simp
qed

lemma image2ground_old_cipv_index:
  "image2ground (st\<lparr>old_cipv_index := x\<rparr>) fx fy = image2ground st fx fy"
  by (simp add: image2ground_def)

lemma FindClosestEdgeOfObjectGround_old_cipv_index:
  "FindClosestEdgeOfObjectGround K (st\<lparr>old_cipv_index := x\<rparr>) ob lane
     = FindClosestEdgeOfObjectGround K st ob lane"
  by (simp add: FindClosestEdgeOfObjectGround_def image2ground_old_cipv_index Let_def
      split: prod.splits)

lemma IsObjectInTheLane_old_cipv_index:
  "IsObjectInTheLane K (st\<lparr>old_cipv_index := x\<rparr>) ob ei eg = IsObjectInTheLane K st ob ei eg"
  by (simp add: IsObjectInTheLane_def IsObjectInTheLaneGround_def
      FindClosestEdgeOfObjectGround_old_cipv_index)

lemma set_b_cipv_length: "length (set_b_cipv objects i v) = length objects"
  by (simp add: set_b_cipv_def)

lemma set_b_cipv_nth:
  "0 \<le> i \<Longrightarrow> i < int (length objects) \<Longrightarrow> j < length objects \<Longrightarrow>
   set_b_cipv objects i v ! j =
     (if int j = i then (objects ! j)\<lparr>b_cipv := v\<rparr> else objects ! j)"
  by (auto simp: set_b_cipv_def nth_list_update)

text \<open>
  C1, as the code has it. After a call of \<open>DetermineCipv\<close> that returns, the new
  \<open>old_cipv_index\<close> is the selection among the objects in the ego lane; the list has the
  same objects, with these flags: true at the selected index; false at the previous index
  when there is a selection; unchanged everywhere else, and everywhere when nothing is
  selected. So at most one flag is true after the call provided that, on entry, no object
  other than the one at the previous index had its flag set.
\<close>

theorem DetermineCipv_flags:
  assumes run: "DetermineCipv K st lane_objects options objects = Inr (r, st', objects')"
    and lanes: "GetEgoLane K lane_objects empty_ego_lane empty_ego_lane False False
                  = Inr (ei0, eg0, bl, br)"
    and elong: "ElongateEgoLane K st lane_objects bl br (yaw_rate options) (velocity options)
                  ei0 eg0 = Inr (ei, eg)"
  shows "r \<and>
    selection_of (\<lambda>ob. IsObjectInTheLane K st ob ei eg = Inr True) objects (length objects)
      (old_cipv_index st') \<and>
    length objects' = length objects \<and>
    (\<forall>j<length objects.
       objects' ! j =
         (objects ! j)\<lparr>b_cipv :=
            (if int j = old_cipv_index st' then True
             else if 0 \<le> old_cipv_index st' \<and> int j = old_cipv_index st then False
             else b_cipv (objects ! j))\<rparr>) \<and>
    ((\<forall>j<length objects. b_cipv (objects ! j) \<longrightarrow> int j = old_cipv_index st) \<longrightarrow>
     (\<forall>i<length objects. \<forall>j<length objects.
        b_cipv (objects' ! i) \<and> b_cipv (objects' ! j) \<longrightarrow> i = j))"
proof -
  let ?Q = "\<lambda>ob. IsObjectInTheLane K st ob ei eg = Inr True"
  let ?old = "old_cipv_index st"
  have D: "DetermineCipv K st lane_objects options objects =
      (case select_cipv_loop K st ei eg objects objects 0 (- 1) of
         Inl e \<Rightarrow> Inl e
       | Inr cipv_index \<Rightarrow>
           if cipv_index \<ge> 0 then
             (if ?old \<ge> 0 \<and> ?old \<noteq> cipv_index then
                (if ?old \<ge> int (length objects) then Inl IndexOutOfRange
                 else Inr (True, st\<lparr>old_cipv_index := cipv_index\<rparr>,
                           set_b_cipv (set_b_cipv objects ?old False) cipv_index True))
              else Inr (True, st\<lparr>old_cipv_index := cipv_index\<rparr>,
                        set_b_cipv objects cipv_index True))
           else Inr (True, st\<lparr>old_cipv_index := cipv_index\<rparr>, objects))"
    by (simp add: DetermineCipv_def lanes [unfolded empty_ego_lane_def] elong)
  from run D obtain c where
    sel: "select_cipv_loop K st ei eg objects objects 0 (- 1) = Inr c"
    by (cases "select_cipv_loop K st ei eg objects objects 0 (- 1)") simp_all
  have "selection_of ?Q objects (length ([]::Object list)) (- 1)"
    by (simp add: selection_of_def)
  with sel have selc: "selection_of ?Q objects (length objects) c"
    using select_cipv_loop_selection [of K st ei eg objects objects "[]" "- 1" c] by simp
  then have c_lo: "- 1 \<le> c" and c_hi: "c < int (length objects)"
    by (simp_all add: selection_of_def)
  have res:
    "r \<and> old_cipv_index st' = c \<and>
     objects' = (if 0 \<le> c then
                   (if 0 \<le> ?old \<and> ?old \<noteq> c
                    then set_b_cipv (set_b_cipv objects ?old False) c True
                    else set_b_cipv objects c True)
                 else objects) \<and>
     (0 \<le> c \<and> 0 \<le> ?old \<and> ?old \<noteq> c \<longrightarrow> ?old < int (length objects))"
  proof (cases "0 \<le> c")
    case False
    with run D sel show ?thesis by auto
  next
    case True
    show ?thesis
    proof (cases "0 \<le> ?old \<and> ?old \<noteq> c")
      case False
      with run D sel True show ?thesis by auto
    next
      case old: True
      show ?thesis
      proof (cases "?old \<ge> int (length objects)")
        case True
        with run D sel \<open>0 \<le> c\<close> old show ?thesis by simp
      next
        case False
        with run D sel \<open>0 \<le> c\<close> old show ?thesis by auto
      qed
    qed
  qed
  then have r: r and c: "old_cipv_index st' = c" by simp_all
  from res have len: "length objects' = length objects"
    by (auto simp: set_b_cipv_length)
  have upd: "objects' ! j =
         (objects ! j)\<lparr>b_cipv :=
            (if int j = c then True
             else if 0 \<le> c \<and> int j = ?old then False
             else b_cipv (objects ! j))\<rparr>" if "j < length objects" for j
  proof (cases "0 \<le> c")
    case False
    with res c_lo show ?thesis by auto
  next
    case True
    show ?thesis
    proof (cases "0 \<le> ?old \<and> ?old \<noteq> c")
      case False
      with res True c_hi that show ?thesis
        by (auto simp: set_b_cipv_nth)
    next
      case old: True
      with res True have "?old < int (length objects)" by simp
      with res True old c_hi that show ?thesis
        by (auto simp: set_b_cipv_nth set_b_cipv_length)
    qed
  qed
  have one: "i = j"
    if h: "\<forall>j<length objects. b_cipv (objects ! j) \<longrightarrow> int j = ?old"
      and i: "i < length objects" and j: "j < length objects"
      and fi: "b_cipv (objects' ! i)" and fj: "b_cipv (objects' ! j)" for i j
  proof -
    have flagged: "int k = c \<or> (c < 0 \<and> int k = ?old)"
      if k: "k < length objects" and fk: "b_cipv (objects' ! k)" for k
    proof -
      have "b_cipv (objects' ! k) =
              (if int k = c then True
               else if 0 \<le> c \<and> int k = ?old then False
               else b_cipv (objects ! k))"
        by (simp add: upd [OF k])
      with fk have "int k = c \<or> (\<not> (0 \<le> c \<and> int k = ?old) \<and> b_cipv (objects ! k))"
        by (simp split: if_splits)
      moreover from h k have "b_cipv (objects ! k) \<longrightarrow> int k = ?old" by simp
      ultimately show ?thesis by auto
    qed
    from flagged [OF i fi] flagged [OF j fj] show ?thesis by auto
  qed
  have "\<forall>j<length objects. objects' ! j =
         (objects ! j)\<lparr>b_cipv :=
            (if int j = c then True
             else if 0 \<le> c \<and> int j = ?old then False
             else b_cipv (objects ! j))\<rparr>"
    using upd by simp
  moreover have "(\<forall>j<length objects. b_cipv (objects ! j) \<longrightarrow> int j = ?old) \<longrightarrow>
     (\<forall>i<length objects. \<forall>j<length objects.
        b_cipv (objects' ! i) \<and> b_cipv (objects' ! j) \<longrightarrow> i = j)"
    using one by simp
  ultimately show ?thesis
    unfolding c using r selc len by (intro conjI)
qed

theorem DetermineCipv_flags_witness:
  "DetermineCipv sample_consts (sample_engine\<lparr>old_cipv_index := 1\<rparr>) sample_lanes
     \<lparr>yaw_rate = 0, velocity = 10\<rparr> [sample_object 1 10 0 False, sample_object 2 10 5 True] =
   Inr (True, sample_engine\<lparr>old_cipv_index := 0\<rparr>,
        [sample_object 1 10 0 True, sample_object 2 10 5 False]) \<and>
   GetEgoLane sample_consts sample_lanes empty_ego_lane empty_ego_lane False False
     = Inr (sample_ego_lane, sample_ego_lane, True, True) \<and>
   selection_of
     (\<lambda>ob. IsObjectInTheLane sample_consts (sample_engine\<lparr>old_cipv_index := 1\<rparr>) ob
              sample_ego_lane sample_ego_lane = Inr True)
     [sample_object 1 10 0 False, sample_object 2 10 5 True]
     (length [sample_object 1 10 0 False, sample_object 2 10 5 True])
     (old_cipv_index (sample_engine\<lparr>old_cipv_index := 0\<rparr>))"
proof -
  have q: "\<And>ob. IsObjectInTheLane sample_consts (sample_engine\<lparr>old_cipv_index := 1\<rparr>) ob
              sample_ego_lane sample_ego_lane
            = IsObjectInTheLane sample_consts sample_engine ob sample_ego_lane sample_ego_lane"
    by (rule IsObjectInTheLane_old_cipv_index)
  have u: "(sample_object 1 10 0 False)\<lparr>b_cipv := True\<rparr> = sample_object 1 10 0 True"
    "(sample_object 2 10 5 True)\<lparr>b_cipv := False\<rparr> = sample_object 2 10 5 False"
    by (simp_all add: sample_object_def)
  have a: "DetermineCipv sample_consts (sample_engine\<lparr>old_cipv_index := 1\<rparr>) sample_lanes
     \<lparr>yaw_rate = 0, velocity = 10\<rparr> [sample_object 1 10 0 False, sample_object 2 10 5 True] =
   Inr (True, sample_engine\<lparr>old_cipv_index := 0\<rparr>,
        [sample_object 1 10 0 True, sample_object 2 10 5 False])"
    by (simp add: DetermineCipv_def sample_GetEgoLane [unfolded empty_ego_lane_def]
        sample_ElongateEgoLane q sample_in_lane_10_0 sample_in_lane_10_5 u set_b_cipv_def
        sample_object_fields)
  have b: "ElongateEgoLane sample_consts (sample_engine\<lparr>old_cipv_index := 1\<rparr>) sample_lanes True True
             (yaw_rate \<lparr>yaw_rate = 0, velocity = 10\<rparr>) (velocity \<lparr>yaw_rate = 0, velocity = 10\<rparr>)
             sample_ego_lane sample_ego_lane = Inr (sample_ego_lane, sample_ego_lane)"
    by (rule sample_ElongateEgoLane)
  note t = DetermineCipv_flags [OF a sample_GetEgoLane b]
  from t [THEN conjunct2, THEN conjunct1] a sample_GetEgoLane
  show ?thesis by (intro conjI)
qed

text \<open>
  The claim C1 as stated fails on a list whose second object, outside the lane, comes with
  its flag already set: the first object is selected and flagged, and the second flag is
  left as it was, so two objects are flagged after the call.
\<close>

theorem DetermineCipv_two_flags:
  "DetermineCipv sample_consts sample_engine sample_lanes \<lparr>yaw_rate = 0, velocity = 10\<rparr>
     [sample_object 1 10 0 False, sample_object 2 10 5 True] =
   Inr (True, sample_engine\<lparr>old_cipv_index := 0\<rparr>,
        [sample_object 1 10 0 True, sample_object 2 10 5 True]) \<and>
   b_cipv ([sample_object 1 10 0 True, sample_object 2 10 5 True] ! 0) \<and>
   b_cipv ([sample_object 1 10 0 True, sample_object 2 10 5 True] ! 1)"
proof -
  have o: "old_cipv_index sample_engine = - 2"
    by (simp add: sample_engine_def Init_def Cipv_new_def)
  have u: "(sample_object 1 10 0 False)\<lparr>b_cipv := True\<rparr> = sample_object 1 10 0 True"
    by (simp add: sample_object_def)
  show ?thesis
    by (simp add: DetermineCipv_def sample_GetEgoLane [unfolded empty_ego_lane_def]
        sample_ElongateEgoLane sample_in_lane_10_0 sample_in_lane_10_5 o u set_b_cipv_def
        sample_object_fields)
qed

section \<open>Eviction of absent tracks\<close>

lemma map_of_map_set: "map_of (map_set k v m) = (map_of m)(k \<mapsto> v)"
  by (induction m) (auto simp: fun_eq_iff)

lemma map_of_map_erase: "map_of (map_erase k m) = (map_of m)(k := None)"
  by (induction m) (auto simp: map_erase_def fun_eq_iff)

lemma keys_map_set: "set (map fst (map_set k v m)) = insert k (set (map fst m))"
proof -
  have "fst ` set (map_set k v m) = dom (map_of (map_set k v m))"
    by (simp add: dom_map_of_conv_image_fst)
  also have "\<dots> = insert k (dom (map_of m))"
    by (simp add: map_of_map_set)
  also have "\<dots> = insert k (fst ` set m)"
    by (simp add: dom_map_of_conv_image_fst)
  finally show ?thesis by simp
qed

lemma keys_ascending_map_set: "keys_ascending m \<Longrightarrow> keys_ascending (map_set k v m)"
proof (induction m)
  case Nil
  then show ?case by (simp add: keys_ascending_def)
next
  case (Cons a m)
  obtain k' v' where a: "a = (k', v')" by (cases a)
  from Cons.prems have tl: "keys_ascending m" and hd: "\<forall>x\<in>set (map fst m). k' < x"
    by (auto simp: keys_ascending_def a)
  show ?case
  proof (cases "k < k'")
    case True
    with Cons.prems show ?thesis by (auto simp: keys_ascending_def a)
  next
    case False
    show ?thesis
    proof (cases "k = k'")
      case True
      with Cons.prems show ?thesis by (auto simp: keys_ascending_def a)
    next
      case ne: False
      with False have "k' < k" by simp
      with Cons.IH [OF tl] hd ne False show ?thesis
        unfolding keys_ascending_def a
        by (simp add: keys_map_set [simplified])
    qed
  qed
qed

lemma keys_ascending_map_erase: "keys_ascending m \<Longrightarrow> keys_ascending (map_erase k m)"
proof -
  have "map fst (map_erase k m) = filter (\<lambda>x. x \<noteq> k) (map fst m)"
    by (induction m) (auto simp: map_erase_def)
  then show "keys_ascending m \<Longrightarrow> keys_ascending (map_erase k m)"
    by (simp add: keys_ascending_def sorted_wrt_filter)
qed

lemma keys_ascending_distinct: "keys_ascending m \<Longrightarrow> distinct (map fst m)"
  by (simp add: keys_ascending_def strict_sorted_iff)

lemma map_index_lookup:
  "map_index dflt k m = (v, m') \<Longrightarrow>
   map_of m' = (case map_of m k of None \<Rightarrow> (map_of m)(k \<mapsto> dflt) | Some w \<Rightarrow> map_of m) \<and>
   v = (case map_of m k of None \<Rightarrow> dflt | Some w \<Rightarrow> w)"
  by (auto simp: map_index_def map_of_map_set split: option.splits)

lemma map_index_keys_ascending:
  "map_index dflt k m = (v, m') \<Longrightarrow> keys_ascending m \<Longrightarrow> keys_ascending m'"
  by (auto simp: map_index_def keys_ascending_map_set split: option.splits)

lemma push_back_nonempty:
  "0 < capacity b \<or> items b \<noteq> [] \<Longrightarrow> items (push_back b p) \<noteq> []"
  by (auto simp: push_back_def)

lemma track_object_keys_ascending:
  assumes "track_object K mb st obj = Inr st'"
    and "keys_ascending (object_trackjectories st)"
  shows "keys_ascending (object_trackjectories st')"
proof -
  obtain buf0 traj0 where
    mi: "map_index \<lparr>capacity = 0, items = []\<rparr> (track_id obj) (object_trackjectories st) = (buf0, traj0)"
    by (cases "map_index \<lparr>capacity = 0, items = []\<rparr> (track_id obj) (object_trackjectories st)")
  from map_index_keys_ascending [OF mi assms(2)] have "keys_ascending traj0" .
  with assms(1) mi show ?thesis
    by (auto simp: track_object_def Let_def keys_ascending_map_set split: sum.splits)
qed

lemma track_object_other:
  assumes "track_object K mb st obj = Inr st'" and "track_id obj \<noteq> tid"
  shows "map_of (object_trackjectories st') tid = map_of (object_trackjectories st) tid \<and>
         map_of (object_id_skip_count st') tid = map_of (object_id_skip_count st) tid"
proof -
  obtain buf0 traj0 where
    mi: "map_index \<lparr>capacity = 0, items = []\<rparr> (track_id obj) (object_trackjectories st) = (buf0, traj0)"
    by (cases "map_index \<lparr>capacity = 0, items = []\<rparr> (track_id obj) (object_trackjectories st)")
  from map_index_lookup [OF mi] assms(2)
  have "map_of traj0 tid = map_of (object_trackjectories st) tid"
    by (auto split: option.splits)
  with assms mi show ?thesis
    by (auto simp: track_object_def Let_def map_of_map_set split: sum.splits)
qed

lemma track_object_seen:
  assumes "track_object K mb st obj = Inr st'" and "0 < DROPS_HISTORY_SIZE K"
  shows "\<exists>buf. map_of (object_trackjectories st') (track_id obj) = Some buf \<and> items buf \<noteq> [] \<and>
           map_of (object_id_skip_count st') (track_id obj) = Some 0"
proof -
  obtain buf0 traj0 where
    mi: "map_index \<lparr>capacity = 0, items = []\<rparr> (track_id obj) (object_trackjectories st) = (buf0, traj0)"
    by (cases "map_index \<lparr>capacity = 0, items = []\<rparr> (track_id obj) (object_trackjectories st)")
  define buf1 where "buf1 = (if length (items buf0) = 0 then buf0\<lparr>capacity := DROPS_HISTORY_SIZE K\<rparr>
                  else buf0)"
  have "0 < capacity buf1 \<or> items buf1 \<noteq> []"
    using assms(2) by (auto simp: buf1_def)
  then have ne: "items (push_back buf1 (fst (center obj), fst (snd (center obj)))) \<noteq> []"
    by (rule push_back_nonempty)
  from assms(1) mi ne show ?thesis
    by (auto simp: track_object_def Let_def map_of_map_set buf1_def split: sum.splits)
qed

lemma track_objects_loop_keys_ascending:
  "track_objects_loop K mb objects st = Inr st' \<Longrightarrow> keys_ascending (object_trackjectories st) \<Longrightarrow>
   keys_ascending (object_trackjectories st')"
  by (induction objects arbitrary: st)
     (auto split: sum.splits dest: track_object_keys_ascending)

lemma track_objects_loop_other:
  "track_objects_loop K mb objects st = Inr st' \<Longrightarrow> tid \<notin> set (map track_id objects) \<Longrightarrow>
   map_of (object_trackjectories st') tid = map_of (object_trackjectories st) tid \<and>
   map_of (object_id_skip_count st') tid = map_of (object_id_skip_count st) tid"
proof (induction objects arbitrary: st)
  case Nil
  then show ?case by simp
next
  case (Cons obj objects)
  from Cons.prems(1) obtain st1 where
    1: "track_object K mb st obj = Inr st1" and 2: "track_objects_loop K mb objects st1 = Inr st'"
    by (auto split: sum.splits)
  from Cons.prems(2) have ne: "track_id obj \<noteq> tid" and rest: "tid \<notin> set (map track_id objects)"
    by auto
  from track_object_other [OF 1 ne] Cons.IH [OF 2 rest] show ?case by simp
qed

lemma track_objects_loop_seen:
  "track_objects_loop K mb objects st = Inr st' \<Longrightarrow> tid \<in> set (map track_id objects) \<Longrightarrow>
   0 < DROPS_HISTORY_SIZE K \<Longrightarrow>
   \<exists>buf. map_of (object_trackjectories st') tid = Some buf \<and> items buf \<noteq> [] \<and>
         map_of (object_id_skip_count st') tid = Some 0"
proof (induction objects arbitrary: st)
  case Nil
  then show ?case by simp
next
  case (Cons obj objects)
  from Cons.prems(1) obtain st1 where
    1: "track_object K mb st obj = Inr st1" and 2: "track_objects_loop K mb objects st1 = Inr st'"
    by (auto split: sum.splits)
  show ?case
  proof (cases "tid \<in> set (map track_id objects)")
    case True
    from Cons.IH [OF 2 True Cons.prems(3)] show ?thesis .
  next
    case False
    with Cons.prems(2) have eq: "track_id obj = tid" by simp
    from track_object_seen [OF 1 Cons.prems(3)] eq track_objects_loop_other [OF 2 False]
    show ?thesis by simp
  qed
qed

lemma evict_visit_keys_ascending:
  assumes "keys_ascending (object_trackjectories st)"
  shows "keys_ascending (object_trackjectories (fst (evict_visit K objects st k)))"
proof -
  obtain buf traj1 where
    mi: "map_index \<lparr>capacity = 0, items = []\<rparr> k (object_trackjectories st) = (buf, traj1)"
    by (cases "map_index \<lparr>capacity = 0, items = []\<rparr> k (object_trackjectories st)")
  from map_index_keys_ascending [OF mi assms] have "keys_ascending traj1" .
  with assms mi show ?thesis
    by (auto simp: evict_visit_def Let_def keys_ascending_map_erase split: prod.splits)
qed

lemma evict_visit_other:
  assumes "k \<noteq> tid"
  shows "map_of (object_trackjectories (fst (evict_visit K objects st k))) tid
           = map_of (object_trackjectories st) tid \<and>
         map_of (object_id_skip_count (fst (evict_visit K objects st k))) tid
           = map_of (object_id_skip_count st) tid"
proof -
  obtain buf traj1 where
    mi: "map_index \<lparr>capacity = 0, items = []\<rparr> k (object_trackjectories st) = (buf, traj1)"
    by (cases "map_index \<lparr>capacity = 0, items = []\<rparr> k (object_trackjectories st)")
  obtain c skip1 where
    si: "map_index 0 k (object_id_skip_count st) = (c, skip1)"
    by (cases "map_index 0 k (object_id_skip_count st)")
  from map_index_lookup [OF mi] assms
  have t: "map_of traj1 tid = map_of (object_trackjectories st) tid"
    by (auto split: option.splits)
  from map_index_lookup [OF si] assms
  have s: "map_of skip1 tid = map_of (object_id_skip_count st) tid"
    by (auto split: option.splits)
  from assms t s show ?thesis
    by (simp add: evict_visit_def Let_def mi si map_of_map_set map_of_map_erase)
qed

lemma evict_visit_found:
  "tid \<in> set (map track_id objects) \<Longrightarrow> evict_visit K objects st tid = (st, False)"
  by (simp add: evict_visit_def)

lemma evict_visit_absent:
  assumes "tid \<notin> set (map track_id objects)"
    and "map_of (object_trackjectories st) tid = Some buf" and "items buf \<noteq> []"
    and "map_of (object_id_skip_count st) tid = Some c"
  shows "if c + 1 \<ge> MAX_ALLOWED_SKIP_OBJECT K
         then snd (evict_visit K objects st tid) \<and>
              map_of (object_trackjectories (fst (evict_visit K objects st tid))) tid = None \<and>
              map_of (object_id_skip_count (fst (evict_visit K objects st tid))) tid = None
         else \<not> snd (evict_visit K objects st tid) \<and>
              map_of (object_trackjectories (fst (evict_visit K objects st tid))) tid = Some buf \<and>
              map_of (object_id_skip_count (fst (evict_visit K objects st tid))) tid = Some (c + 1)"
proof -
  have mi: "map_index \<lparr>capacity = 0, items = []\<rparr> tid (object_trackjectories st)
              = (buf, object_trackjectories st)"
    by (simp add: map_index_def assms(2))
  have si: "map_index 0 tid (object_id_skip_count st) = (c, object_id_skip_count st)"
    by (simp add: map_index_def assms(4))
  from assms show ?thesis
    by (simp add: evict_visit_def Let_def mi si map_of_map_set map_of_map_erase)
qed

lemma evict_loop_Cons_Inr:
  "evict_loop K objects (k # ks) st = Inr st' \<longleftrightarrow>
     \<not> snd (evict_visit K objects st k) \<and>
     evict_loop K objects ks (fst (evict_visit K objects st k)) = Inr st'"
  by (cases "evict_visit K objects st k") simp

lemma evict_loop_append:
  "evict_loop K objects (xs @ ys) st =
     (case evict_loop K objects xs st of
        Inl e \<Rightarrow> Inl e
      | Inr st1 \<Rightarrow> evict_loop K objects ys st1)"
  by (induction xs arbitrary: st) (auto split: prod.splits)

lemma evict_loop_keys_ascending:
  "evict_loop K objects ks st = Inr st' \<Longrightarrow> keys_ascending (object_trackjectories st) \<Longrightarrow>
   keys_ascending (object_trackjectories st')"
proof (induction ks arbitrary: st)
  case Nil
  then show ?case by simp
next
  case (Cons k ks)
  from Cons.prems(1) have
    "evict_loop K objects ks (fst (evict_visit K objects st k)) = Inr st'"
    by (simp add: evict_loop_Cons_Inr del: evict_loop.simps)
  from Cons.IH [OF this evict_visit_keys_ascending [OF Cons.prems(2)]] show ?case .
qed

lemma evict_loop_other:
  "evict_loop K objects ks st = Inr st' \<Longrightarrow> tid \<notin> set ks \<Longrightarrow>
   map_of (object_trackjectories st') tid = map_of (object_trackjectories st) tid \<and>
   map_of (object_id_skip_count st') tid = map_of (object_id_skip_count st) tid"
proof (induction ks arbitrary: st)
  case Nil
  then show ?case by simp
next
  case (Cons k ks)
  from Cons.prems(1) have
    run: "evict_loop K objects ks (fst (evict_visit K objects st k)) = Inr st'"
    by (simp add: evict_loop_Cons_Inr del: evict_loop.simps)
  from Cons.prems(2) have ne: "k \<noteq> tid" and rest: "tid \<notin> set ks" by auto
  from Cons.IH [OF run rest] evict_visit_other [OF ne, of K objects st] show ?case by simp
qed

lemma evict_loop_found:
  "evict_loop K objects ks st = Inr st' \<Longrightarrow> tid \<in> set (map track_id objects) \<Longrightarrow>
   map_of (object_trackjectories st') tid = map_of (object_trackjectories st) tid \<and>
   map_of (object_id_skip_count st') tid = map_of (object_id_skip_count st) tid"
proof (induction ks arbitrary: st)
  case Nil
  then show ?case by simp
next
  case (Cons k ks)
  from Cons.prems(1) have
    run: "evict_loop K objects ks (fst (evict_visit K objects st k)) = Inr st'"
    by (simp add: evict_loop_Cons_Inr del: evict_loop.simps)
  show ?case
  proof (cases "k = tid")
    case True
    with Cons.IH [OF run Cons.prems(2)] Cons.prems(2) show ?thesis
      by (simp add: evict_visit_found)
  next
    case False
    with Cons.IH [OF run Cons.prems(2)] evict_visit_other [OF False, of K objects st]
    show ?thesis by simp
  qed
qed

text \<open>
  The visit of an absent track with a non-empty history, in a loop over distinct keys: a
  loop that returns has not reached the limit, and has counted one more absence; at the
  limit the loop erases the entry under its iterator and does not return.
\<close>

lemma evict_loop_absent:
  assumes "distinct ks" and "tid \<in> set ks"
    and "tid \<notin> set (map track_id objects)"
    and "map_of (object_trackjectories st) tid = Some buf" and "items buf \<noteq> []"
    and "map_of (object_id_skip_count st) tid = Some c"
  shows "if c + 1 \<ge> MAX_ALLOWED_SKIP_OBJECT K
         then \<exists>e. evict_loop K objects ks st = Inl e
         else \<forall>st'. evict_loop K objects ks st = Inr st' \<longrightarrow>
                map_of (object_trackjectories st') tid = Some buf \<and>
                map_of (object_id_skip_count st') tid = Some (c + 1)"
proof -
  from assms(2) obtain xs ys where ks: "ks = xs @ tid # ys"
    by (auto simp: in_set_conv_decomp)
  with assms(1) have nx: "tid \<notin> set xs" and ny: "tid \<notin> set ys" by auto
  show ?thesis
  proof (cases "evict_loop K objects xs st")
    case (Inl e)
    then have "evict_loop K objects ks st = Inl e"
      by (simp add: ks evict_loop_append)
    then show ?thesis by auto
  next
    case (Inr st1)
    from evict_loop_other [OF Inr nx] assms(4,6)
    have t1: "map_of (object_trackjectories st1) tid = Some buf"
      and s1: "map_of (object_id_skip_count st1) tid = Some c"
      by simp_all
    note v = evict_visit_absent [OF assms(3) t1 assms(5) s1, of K]
    have e: "evict_loop K objects ks st = evict_loop K objects (tid # ys) st1"
      by (simp add: ks evict_loop_append Inr)
    show ?thesis
    proof (cases "c + 1 \<ge> MAX_ALLOWED_SKIP_OBJECT K")
      case True
      with v have "snd (evict_visit K objects st1 tid)" by simp
      then have "evict_loop K objects (tid # ys) st1 = Inl InvalidatedIterator"
        by (cases "evict_visit K objects st1 tid") simp
      with True e show ?thesis by simp
    next
      case False
      have "map_of (object_trackjectories st') tid = Some buf \<and>
            map_of (object_id_skip_count st') tid = Some (c + 1)"
        if run: "evict_loop K objects ks st = Inr st'" for st'
      proof -
        from run e have
          "evict_loop K objects ys (fst (evict_visit K objects st1 tid)) = Inr st'"
          by (simp add: evict_loop_Cons_Inr del: evict_loop.simps)
        from evict_loop_other [OF this ny] v False show ?thesis by simp
      qed
      with False show ?thesis by simp
    qed
  qed
qed

lemma CollectDrops_Inr:
  assumes "CollectDrops K st mb objects = Inr (r, st')" and "mb \<noteq> []"
  obtains st1 where "track_objects_loop K mb objects st = Inr st1"
    and "evict_loop K objects (map fst (object_trackjectories st1)) st1 = Inr st'"
  using assms by (auto simp: CollectDrops_def split: sum.splits)

lemma CollectDrops_seen:
  assumes run: "CollectDrops K st mb objects = Inr (r, st')"
    and mb: "mb \<noteq> []"
    and ka: "keys_ascending (object_trackjectories st)"
    and seen: "tid \<in> set (map track_id objects)"
    and cap: "0 < DROPS_HISTORY_SIZE K"
  shows "keys_ascending (object_trackjectories st') \<and>
         (\<exists>buf. map_of (object_trackjectories st') tid = Some buf \<and> items buf \<noteq> [] \<and>
                map_of (object_id_skip_count st') tid = Some 0)"
proof -
  from run mb obtain st1 where
    1: "track_objects_loop K mb objects st = Inr st1"
    and 2: "evict_loop K objects (map fst (object_trackjectories st1)) st1 = Inr st'"
    by (rule CollectDrops_Inr)
  from evict_loop_keys_ascending [OF 2 track_objects_loop_keys_ascending [OF 1 ka]]
    track_objects_loop_seen [OF 1 seen cap] evict_loop_found [OF 2 seen]
  show ?thesis by simp
qed

lemma CollectDrops_absent:
  assumes mb: "mb \<noteq> []"
    and ka: "keys_ascending (object_trackjectories st)"
    and absent: "tid \<notin> set (map track_id objects)"
    and t: "map_of (object_trackjectories st) tid = Some buf" and ne: "items buf \<noteq> []"
    and s: "map_of (object_id_skip_count st) tid = Some c"
  shows "if c + 1 \<ge> MAX_ALLOWED_SKIP_OBJECT K
         then \<exists>e. CollectDrops K st mb objects = Inl e
         else \<forall>r st'. CollectDrops K st mb objects = Inr (r, st') \<longrightarrow>
                keys_ascending (object_trackjectories st') \<and>
                map_of (object_trackjectories st') tid = Some buf \<and>
                map_of (object_id_skip_count st') tid = Some (c + 1)"
proof (cases "track_objects_loop K mb objects st")
  case (Inl e)
  with mb have "CollectDrops K st mb objects = Inl e"
    by (simp add: CollectDrops_def)
  then show ?thesis by auto
next
  case (Inr st1)
  note ka1 = track_objects_loop_keys_ascending [OF Inr ka]
  from track_objects_loop_other [OF Inr absent] t s
  have t1: "map_of (object_trackjectories st1) tid = Some buf"
    and s1: "map_of (object_id_skip_count st1) tid = Some c"
    by simp_all
  from t1 have "tid \<in> fst ` set (object_trackjectories st1)"
    by (metis map_of_eq_None_iff option.distinct(1))
  then have mem: "tid \<in> set (map fst (object_trackjectories st1))" by simp
  note el = evict_loop_absent [OF keys_ascending_distinct [OF ka1] mem absent t1 ne s1, of K]
  have cd: "CollectDrops K st mb objects =
       (case evict_loop K objects (map fst (object_trackjectories st1)) st1 of
          Inl e \<Rightarrow> Inl e | Inr st2 \<Rightarrow> Inr (True, st2))"
    using mb by (simp add: CollectDrops_def Inr)
  show ?thesis
  proof (cases "c + 1 \<ge> MAX_ALLOWED_SKIP_OBJECT K")
    case True
    with el obtain e where
      "evict_loop K objects (map fst (object_trackjectories st1)) st1 = Inl e" by auto
    with cd True show ?thesis by simp
  next
    case False
    have "keys_ascending (object_trackjectories st') \<and>
          map_of (object_trackjectories st') tid = Some buf \<and>
          map_of (object_id_skip_count st') tid = Some (c + 1)"
      if "CollectDrops K st mb objects = Inr (r, st')" for r st'
    proof -
      from that cd have
        2: "evict_loop K objects (map fst (object_trackjectories st1)) st1 = Inr st'"
        by (auto split: sum.splits)
      from evict_loop_keys_ascending [OF 2 ka1] el False 2 show ?thesis by simp
    qed
    with False show ?thesis by simp
  qed
qed

lemma CollectDrops_frames_absent:
  assumes "\<forall>f\<in>set frames. fst f \<noteq> [] \<and> tid \<notin> set (map track_id (snd f))"
    and "keys_ascending (object_trackjectories st)"
    and "map_of (object_trackjectories st) tid = Some buf" and "items buf \<noteq> []"
    and "map_of (object_id_skip_count st) tid = Some c"
    and "CollectDrops_frames K st frames = Inr st'"
  shows "(frames \<noteq> [] \<longrightarrow> c + length frames < MAX_ALLOWED_SKIP_OBJECT K) \<and>
         map_of (object_trackjectories st') tid = Some buf \<and>
         map_of (object_id_skip_count st') tid = Some (c + length frames)"
  using assms
proof (induction frames arbitrary: st c)
  case Nil
  then show ?case by simp
next
  case (Cons f frames)
  obtain mb objects where f: "f = (mb, objects)" by (cases f)
  from Cons.prems(6) obtain r st1 where
    1: "CollectDrops K st mb objects = Inr (r, st1)"
    and 2: "CollectDrops_frames K st1 frames = Inr st'"
    by (auto simp: f split: sum.splits)
  from Cons.prems(1) have mb: "mb \<noteq> []" and absent: "tid \<notin> set (map track_id objects)"
    and rest: "\<forall>f\<in>set frames. fst f \<noteq> [] \<and> tid \<notin> set (map track_id (snd f))"
    by (auto simp: f)
  note step = CollectDrops_absent [OF mb Cons.prems(2) absent Cons.prems(3,4,5), of K]
  from step 1 have lt: "c + 1 < MAX_ALLOWED_SKIP_OBJECT K"
    by (cases "c + 1 \<ge> MAX_ALLOWED_SKIP_OBJECT K") auto
  with step 1 have ka1: "keys_ascending (object_trackjectories st1)"
    and t1: "map_of (object_trackjectories st1) tid = Some buf"
    and s1: "map_of (object_id_skip_count st1) tid = Some (c + 1)"
    by auto
  from Cons.IH [OF rest ka1 t1 Cons.prems(4) s1 2] lt show ?case
    by (cases frames) auto
qed

text \<open>
  A track seen in one frame and absent from the frames that follow: every run of calls that
  returns is shorter than \<open>MAX_ALLOWED_SKIP_OBJECT\<close> frames, and leaves the history in
  place with the counter at the number of absent frames. No run of
  \<open>MAX_ALLOWED_SKIP_OBJECT\<close> absent frames returns.
\<close>

lemma CollectDrops_absent_run:
  assumes "0 < DROPS_HISTORY_SIZE K"
    and "keys_ascending (object_trackjectories st0)"
    and "CollectDrops K st0 mb0 objects0 = Inr (r, st1)" and "mb0 \<noteq> []"
    and "tid \<in> set (map track_id objects0)"
    and "\<forall>f\<in>set frames. fst f \<noteq> [] \<and> tid \<notin> set (map track_id (snd f))"
  shows "(\<forall>st2. CollectDrops_frames K st1 frames = Inr st2 \<longrightarrow>
            (frames \<noteq> [] \<longrightarrow> length frames < MAX_ALLOWED_SKIP_OBJECT K) \<and>
            (\<exists>buf. map_of (object_trackjectories st2) tid = Some buf \<and> items buf \<noteq> []) \<and>
            map_of (object_id_skip_count st2) tid = Some (length frames)) \<and>
         (frames \<noteq> [] \<and> length frames \<ge> MAX_ALLOWED_SKIP_OBJECT K \<longrightarrow>
            (\<exists>e. CollectDrops_frames K st1 frames = Inl e))"
proof -
  from CollectDrops_seen [OF assms(3,4,2,5,1)] obtain buf where
    ka: "keys_ascending (object_trackjectories st1)"
    and t: "map_of (object_trackjectories st1) tid = Some buf" and ne: "items buf \<noteq> []"
    and s: "map_of (object_id_skip_count st1) tid = Some 0"
    by blast
  have ret: "(frames \<noteq> [] \<longrightarrow> length frames < MAX_ALLOWED_SKIP_OBJECT K) \<and>
            (\<exists>buf. map_of (object_trackjectories st2) tid = Some buf \<and> items buf \<noteq> []) \<and>
            map_of (object_id_skip_count st2) tid = Some (length frames)"
    if "CollectDrops_frames K st1 frames = Inr st2" for st2
    using CollectDrops_frames_absent [OF assms(6) ka t ne s that] ne by auto
  have "\<exists>e. CollectDrops_frames K st1 frames = Inl e"
    if "frames \<noteq> []" "length frames \<ge> MAX_ALLOWED_SKIP_OBJECT K"
  proof (cases "CollectDrops_frames K st1 frames")
    case (Inl e)
    then show ?thesis by simp
  next
    case (Inr st2)
    from ret [OF Inr] that show ?thesis by simp
  qed
  with ret show ?thesis by blast
qed

text \<open>
  C7, evaluated on the code, with \<open>MAX_ALLOWED_SKIP_OBJECT = 2\<close>: track 7 is seen in one
  frame and absent from the next two, each with a non-empty motion buffer. After the first
  absent frame, \<open>maxSkip - 1\<close> frames, the history is still there and the counter is 1.
  In the second absent frame the counter reaches the limit: the loop body erases the history
  and the counter of track 7, the entry its own iterator stands on, and the loop then
  increments that iterator. The call does not return with the two maps in the state the
  claim describes.
\<close>

theorem CollectDrops_eviction_invalidates_iterator:
  "MAX_ALLOWED_SKIP_OBJECT sample_consts = 2 \<and>
   CollectDrops sample_consts sample_engine [sample_motion] [sample_object 7 10 0 False] =
     Inr (True, sample_engine\<lparr>object_trackjectories := [(7, \<lparr>capacity = 100, items = [(10, 0)]\<rparr>)],
                              object_id_skip_count := [(7, 0)]\<rparr>) \<and>
   CollectDrops sample_consts
     (sample_engine\<lparr>object_trackjectories := [(7, \<lparr>capacity = 100, items = [(10, 0)]\<rparr>)],
                    object_id_skip_count := [(7, 0)]\<rparr>)
     [sample_motion] [] =
     Inr (True, sample_engine\<lparr>object_trackjectories := [(7, \<lparr>capacity = 100, items = [(10, 0)]\<rparr>)],
                              object_id_skip_count := [(7, 1)]\<rparr>) \<and>
   CollectDrops sample_consts
     (sample_engine\<lparr>object_trackjectories := [(7, \<lparr>capacity = 100, items = [(10, 0)]\<rparr>)],
                    object_id_skip_count := [(7, 1)]\<rparr>)
     [sample_motion] [] = Inl InvalidatedIterator"
  by (simp add: CollectDrops_def track_object_def map_index_def push_back_def evict_visit_def
      map_erase_def sample_engine_def Init_def Cipv_new_def sample_consts_def sample_object_def
      Let_def)

end
